theory Spec2Isabelle
  imports Main "HOL-Library.AList"
begin

section \<open>JavaScript values as the page receives them\<close>

text \<open>
  The page \<^verbatim>\<open>src/pages/[...slug].js\<close> works on values decoded from JSON and on the
  \<^verbatim>\<open>undefined\<close> that reading an absent property gives. A string is its sequence of
  UTF-16 code units, which is what \<^verbatim>\<open>length\<close> and \<^verbatim>\<open>slice\<close> count; the ellipsis
  U+2026 is the single unit 8230. A number is kept as the text \<^verbatim>\<open>String(n)\<close> gives it
  (the program never calculates with a decoded number, it only tests and prints it), so
  the falsy numbers are \<^verbatim>\<open>0\<close> and \<^verbatim>\<open>NaN\<close>. An object is the list of its own properties
  in insertion order.
\<close>

type_synonym jsstring = "nat list"

definition js :: "string \<Rightarrow> jsstring" where
  "js s = map of_char s"

datatype jsval =
    JUndefined
  | JNull
  | JBool bool
  | JNum jsstring
  | JStr jsstring
  | JArr "jsval list"
  | JObj "(jsstring \<times> jsval) list"

datatype jstype = TUndefined | TObject | TBoolean | TNumber | TString

text \<open>\<^verbatim>\<open>typeof v\<close>: null and arrays are objects.\<close>

fun typeof :: "jsval \<Rightarrow> jstype" where
  "typeof JUndefined = TUndefined"
| "typeof JNull = TObject"
| "typeof (JBool b) = TBoolean"
| "typeof (JNum t) = TNumber"
| "typeof (JStr s) = TString"
| "typeof (JArr xs) = TObject"
| "typeof (JObj fs) = TObject"

text \<open>The value of \<^verbatim>\<open>v\<close> in a condition (\<^verbatim>\<open>!v\<close> is its negation).\<close>

fun truthy :: "jsval \<Rightarrow> bool" where
  "truthy JUndefined = False"
| "truthy JNull = False"
| "truthy (JBool b) = b"
| "truthy (JNum t) = (t \<noteq> js ''0'' \<and> t \<noteq> js ''NaN'')"
| "truthy (JStr s) = (s \<noteq> [])"
| "truthy (JArr xs) = True"
| "truthy (JObj fs) = True"

fun isArray :: "jsval \<Rightarrow> bool" where
  "isArray (JArr xs) = True"
| "isArray v = False"

text \<open>\<^verbatim>\<open>a || b\<close> on values.\<close>

definition orElse :: "jsval \<Rightarrow> jsval \<Rightarrow> jsval" where
  "orElse a b = (if truthy a then a else b)"

text \<open>
  \<^verbatim>\<open>v.name\<close> for a value that is not null or undefined, and \<^verbatim>\<open>v?.name\<close> for any
  value. The names the program reads (\<^verbatim>\<open>segments\<close>, \<^verbatim>\<open>status\<close>, \<^verbatim>\<open>type\<close>, ...) are
  properties of no array, string, number or boolean, so only an object can carry them.
\<close>

definition getProp :: "jsval \<Rightarrow> jsstring \<Rightarrow> jsval" where
  "getProp v k = (case v of
      JObj fs \<Rightarrow> (case map_of fs k of Some x \<Rightarrow> x | None \<Rightarrow> JUndefined)
    | _ \<Rightarrow> JUndefined)"

fun joinWith :: "jsstring \<Rightarrow> jsstring list \<Rightarrow> jsstring" where
  "joinWith sep [] = []"
| "joinWith sep [x] = x"
| "joinWith sep (x # y # ys) = x @ sep @ joinWith sep (y # ys)"

datatype jserror = TypeError

text \<open>
  \<^verbatim>\<open>String(v)\<close>, which a template literal applies too. An array joins its elements
  with commas, null and undefined as empty. An object is asked for its \<^verbatim>\<open>toString\<close>: a
  decoded object that has a key of that name holds a value there that cannot be called,
  the inherited \<^verbatim>\<open>valueOf\<close> gives back the object, and the conversion throws a
  TypeError; without such a key the inherited method answers \<^verbatim>\<open>[object Object]\<close>.
  \<open>allOrError\<close> is the first throw of a sequence of conversions, or all their results.
\<close>

fun allOrError :: "(jserror + 'a) list \<Rightarrow> jserror + 'a list" where
  "allOrError [] = Inr []"
| "allOrError (r # rs) =
     (case r of
        Inl err \<Rightarrow> Inl err
      | Inr x \<Rightarrow> (case allOrError rs of Inl err \<Rightarrow> Inl err | Inr xs \<Rightarrow> Inr (x # xs)))"

fun toString :: "jsval \<Rightarrow> jserror + jsstring" where
  "toString JUndefined = Inr (js ''undefined'')"
| "toString JNull = Inr (js ''null'')"
| "toString (JBool b) = Inr (if b then js ''true'' else js ''false'')"
| "toString (JNum t) = Inr t"
| "toString (JStr s) = Inr s"
| "toString (JArr xs) =
     (case allOrError
             (map (\<lambda>x. if x = JUndefined \<or> x = JNull then Inr [] else toString x) xs) of
        Inl err \<Rightarrow> Inl err
      | Inr texts \<Rightarrow> Inr (joinWith (js '','') texts))"
| "toString (JObj fs) =
     (if map_of fs (js ''toString'') \<noteq> None then Inl TypeError
      else Inr (js ''[object Object]''))"

text \<open>
  \<^verbatim>\<open>new Date(v)\<close>, \<^verbatim>\<open>v > 500\<close> and the sort comparator convert an object or an array
  to a primitive on the same path, so they throw for exactly the values for which
  \<^verbatim>\<open>String(v)\<close> throws.
\<close>

definition convertible :: "jsval \<Rightarrow> bool" where
  "convertible v = (case toString v of Inl err \<Rightarrow> False | Inr text \<Rightarrow> True)"

text \<open>
  \<^verbatim>\<open>toLowerCase\<close> on the letters A to Z. The Unicode mapping also changes units beyond
  ASCII; the program compares every lowered string with a literal made of the letters
  of \<^verbatim>\<open>completed\<close>, \<^verbatim>\<open>failed\<close>, \<^verbatim>\<open>cancelled\<close> and \<^verbatim>\<open>commentary\<close>, and no unit beyond ASCII
  lowers to one of these letters alone, so the comparisons see no difference.
\<close>

definition lowerUnit :: "nat \<Rightarrow> nat" where
  "lowerUnit c = (if 65 \<le> c \<and> c \<le> 90 then c + 32 else c)"

definition toLowerCase :: "jsstring \<Rightarrow> jsstring" where
  "toLowerCase s = map lowerUnit s"

fun showNat :: "nat \<Rightarrow> jsstring" where
  "showNat n = (if n < 10 then [48 + n] else showNat (n div 10) @ [48 + n mod 10])"

text \<open>The own enumerable properties that \<^verbatim>\<open>{...v}\<close> copies from an object or an array.\<close>

fun ownFields :: "jsval \<Rightarrow> (jsstring \<times> jsval) list" where
  "ownFields (JObj fs) = fs"
| "ownFields (JArr xs) = zip (map showNat [0..<length xs]) xs"
| "ownFields v = []"

section \<open>Status classifier and response normalizer\<close>

text \<open>
  \<^verbatim>\<open>
  const TERMINAL_STATUSES = new Set(['completed', 'failed', 'cancelled']);
  function isTerminal(status) {
    if (!status) return false;
    return TERMINAL_STATUSES.has(String(status).toLowerCase());
  }
  \<close>
\<close>

definition TERMINAL_STATUSES :: "jsstring list" where
  "TERMINAL_STATUSES = [js ''completed'', js ''failed'', js ''cancelled'']"

definition isTerminal :: "jsval \<Rightarrow> jserror + bool" where
  "isTerminal status =
     (if \<not> truthy status then Inr False
      else
        (case toString status of
           Inl err \<Rightarrow> Inl err
         | Inr text \<Rightarrow> Inr (toLowerCase text \<in> set TERMINAL_STATUSES)))"

text \<open>
  \<^verbatim>\<open>
  function normalizeResponse(resp) {
    if (!resp || typeof resp !== 'object') return null;
    const segments = Array.isArray(resp.segments) ? resp.segments : [];
    const output = Array.isArray(resp.output_content) ? resp.output_content : [];
    return { ...resp, segments, output_content: output };
  }
  \<close>
  The object literal copies the properties of \<^verbatim>\<open>resp\<close> and then assigns the two keys:
  an assignment to a key that is present keeps its place, a new key goes to the end.
  No step can throw: the two property reads are on a value that is an object.
\<close>

definition normalizeResponse :: "jsval \<Rightarrow> jsval" where
  "normalizeResponse resp =
     (if \<not> truthy resp \<or> typeof resp \<noteq> TObject then JNull
      else
        let segments = (if isArray (getProp resp (js ''segments''))
                        then getProp resp (js ''segments'') else JArr []);
            output = (if isArray (getProp resp (js ''output_content''))
                      then getProp resp (js ''output_content'') else JArr [])
        in JObj (AList.update (js ''output_content'') output
                  (AList.update (js ''segments'') segments (ownFields resp))))"

section \<open>Strings: white space, trimming, the two regular expressions\<close>

text \<open>
  The units that \<^verbatim>\<open>\s\<close> matches and \<^verbatim>\<open>trim\<close> strips: the white space and line
  terminator code points of ECMAScript.
\<close>

definition isWhite :: "nat \<Rightarrow> bool" where
  "isWhite c =
     (c \<in> {9, 10, 11, 12, 13, 32, 160, 5760, 8232, 8233, 8239, 8287, 12288, 65279}
      \<or> (8192 \<le> c \<and> c \<le> 8202))"

definition trim :: "jsstring \<Rightarrow> jsstring" where
  "trim s = rev (dropWhile isWhite (rev (dropWhile isWhite s)))"

text \<open>\<^verbatim>\<open>s.replace(/\s+/g, ' ')\<close>: every maximal run of white space becomes one space.\<close>

function collapseWs :: "jsstring \<Rightarrow> jsstring" where
  "collapseWs [] = []"
| "collapseWs (c # cs) =
     (if isWhite c then 32 # collapseWs (dropWhile isWhite cs) else c # collapseWs cs)"
  by pat_completeness auto
termination
  by (relation "measure length") (auto simp: less_Suc_eq_le length_dropWhile_le)

text \<open>
  \<^verbatim>\<open>s.split(/(?<=[.!?])\s+/)\<close>. \<open>prev\<close> is the unit before the position read, \<open>cur\<close> the
  piece read so far, reversed. A run of white space that follows a full stop, an
  exclamation mark or a question mark ends the piece; the pieces may be empty.
\<close>

definition isStop :: "nat option \<Rightarrow> bool" where
  "isStop prev = (prev = Some 46 \<or> prev = Some 33 \<or> prev = Some 63)"

function splitFrom :: "nat option \<Rightarrow> jsstring \<Rightarrow> jsstring \<Rightarrow> jsstring list" where
  "splitFrom prev cur [] = [rev cur]"
| "splitFrom prev cur (c # cs) =
     (if isWhite c \<and> isStop prev
      then rev cur # splitFrom (Some 32) [] (dropWhile isWhite cs)
      else splitFrom (Some c) (c # cur) cs)"
  by pat_completeness auto
termination
  by (relation "measure (\<lambda>(prev, cur, rest). length rest)")
     (auto simp: less_Suc_eq_le length_dropWhile_le)

definition splitSentences :: "jsstring \<Rightarrow> jsstring list" where
  "splitSentences s = splitFrom None [] s"

section \<open>Progress commentary\<close>

text \<open>
  \<^verbatim>\<open>
  function extractLatestCommentary(segments) {
    if (!Array.isArray(segments)) return null;
    for (let idx = segments.length - 1; idx >= 0; idx -= 1) {
      const entry = segments[idx];
      if (!entry || typeof entry !== 'object') continue;
      const type = (entry.type || '').toLowerCase();
      if (type === 'commentary') {
        const text = entry?.text || entry?.content || '';
        if (typeof text === 'string' && text.trim()) return text;
      }
    }
    return null;
  }
  \<close>
  Only a string has the method \<^verbatim>\<open>toLowerCase\<close>: calling it on any other value that JSON
  can give throws a TypeError, which nothing in the function catches.
  \<open>commentaryLoop segments (Suc idx)\<close> is the loop about to read index \<open>idx\<close>.
\<close>

definition callToLowerCase :: "jsval \<Rightarrow> jserror + jsstring" where
  "callToLowerCase v = (case v of JStr s \<Rightarrow> Inr (toLowerCase s) | _ \<Rightarrow> Inl TypeError)"

definition entryText :: "jsval \<Rightarrow> jsval" where
  "entryText entry =
     orElse (getProp entry (js ''text'')) (orElse (getProp entry (js ''content'')) (JStr []))"

definition nonBlankString :: "jsval \<Rightarrow> bool" where
  "nonBlankString text = (case text of JStr s \<Rightarrow> trim s \<noteq> [] | _ \<Rightarrow> False)"

fun commentaryLoop :: "jsval list \<Rightarrow> nat \<Rightarrow> jserror + jsval" where
  "commentaryLoop segments 0 = Inr JNull"
| "commentaryLoop segments (Suc idx) =
     (let entry = segments ! idx in
      if \<not> truthy entry \<or> typeof entry \<noteq> TObject then commentaryLoop segments idx
      else
        case callToLowerCase (orElse (getProp entry (js ''type'')) (JStr [])) of
          Inl err \<Rightarrow> Inl err
        | Inr type \<Rightarrow>
            if type = js ''commentary''
            then (let text = entryText entry in
                  if nonBlankString text then Inr text else commentaryLoop segments idx)
            else commentaryLoop segments idx)"

definition extractLatestCommentary :: "jsval \<Rightarrow> jserror + jsval" where
  "extractLatestCommentary segments =
     (case segments of
        JArr xs \<Rightarrow> commentaryLoop xs (length xs)
      | _ \<Rightarrow> Inr JNull)"

text \<open>
  The words of the specification, to compare the loop with: an entry counts when it is
  an object whose type is a string that lower-cases to \<^verbatim>\<open>commentary\<close> and whose text is
  a string with something left after trimming. \<open>typeReadable\<close> says that the type of an
  object entry is a string or a falsy value.
\<close>

definition isCommentaryEntry :: "jsval \<Rightarrow> bool" where
  "isCommentaryEntry entry =
     (truthy entry \<and> typeof entry = TObject
      \<and> (case orElse (getProp entry (js ''type'')) (JStr []) of
            JStr s \<Rightarrow> toLowerCase s = js ''commentary''
          | _ \<Rightarrow> False)
      \<and> nonBlankString (entryText entry))"

definition typeReadable :: "jsval \<Rightarrow> bool" where
  "typeReadable entry =
     (if truthy entry \<and> typeof entry = TObject
      then typeof (orElse (getProp entry (js ''type'')) (JStr [])) = TString
      else True)"

definition spec_latestCommentary :: "jsval list \<Rightarrow> jsval" where
  "spec_latestCommentary xs =
     (case List.find isCommentaryEntry (rev xs) of
        Some entry \<Rightarrow> entryText entry
      | None \<Rightarrow> JNull)"

text \<open>
  \<^verbatim>\<open>
  function formatCommentary(commentary) {
    if (!commentary) return null;
    const cleaned = String(commentary).replace(/\s+/g, ' ').trim();
    if (!cleaned) return null;
    if (cleaned.length <= 140) return cleaned;
    const sentences = cleaned.split(/(?<=[.!?])\s+/).filter(Boolean);
    if (sentences.length > 0) {
      const lastSentence = sentences[sentences.length - 1];
      if (lastSentence.length <= 140) return lastSentence;
    }
    return `${cleaned.slice(0, 137)}...`;     (the last unit is U+2026)
  }
  \<close>
\<close>

definition ellipsis :: nat where
  "ellipsis = 8230"

definition cleanText :: "jsstring \<Rightarrow> jsstring" where
  "cleanText s = trim (collapseWs s)"

definition sentencesOf :: "jsstring \<Rightarrow> jsstring list" where
  "sentencesOf cleaned = filter (\<lambda>piece. piece \<noteq> []) (splitSentences cleaned)"

definition formatCommentary :: "jsval \<Rightarrow> jserror + jsval" where
  "formatCommentary commentary =
     (if \<not> truthy commentary then Inr JNull
      else
        (case toString commentary of
           Inl err \<Rightarrow> Inl err
         | Inr text \<Rightarrow>
             Inr (let cleaned = cleanText text in
                  if cleaned = [] then JNull
                  else if length cleaned \<le> 140 then JStr cleaned
                  else
                    let sentences = sentencesOf cleaned in
                    if length sentences > 0 \<and> length (last sentences) \<le> 140
                    then JStr (last sentences)
                    else JStr (take 137 cleaned @ [ellipsis]))))"

text \<open>
  The words of the specification for the cleaning: the maximal runs of units that are
  not white space, joined by single spaces.
\<close>

function wordsOf :: "jsstring \<Rightarrow> jsstring list" where
  "wordsOf s =
     (case dropWhile isWhite s of
        [] \<Rightarrow> []
      | c # cs \<Rightarrow>
          takeWhile (\<lambda>u. \<not> isWhite u) (c # cs)
            # wordsOf (dropWhile (\<lambda>u. \<not> isWhite u) cs))"
  by pat_completeness auto
termination
proof (relation "measure length")
  show "wf (measure length)" by simp
next
  fix s :: jsstring and c cs
  assume "dropWhile isWhite s = c # cs"
  then have "length (c # cs) \<le> length s"
    by (metis length_dropWhile_le)
  moreover have "length (dropWhile (\<lambda>u. \<not> isWhite u) cs) \<le> length cs"
    by (rule length_dropWhile_le)
  ultimately show "(dropWhile (\<lambda>u. \<not> isWhite u) cs, s) \<in> measure length"
    by simp
qed

declare wordsOf.simps [simp del]

definition spec_clean :: "jsstring \<Rightarrow> jsstring" where
  "spec_clean s = joinWith [32] (wordsOf s)"

text \<open>
  The words of the specification for the sentences: a sentence ends at a \<^verbatim>\<open>.\<close>, \<^verbatim>\<open>!\<close> or
  \<^verbatim>\<open>?\<close> that is followed by white space. The last sentence is what follows the white
  space of the last such place, and the whole string when there is none: then the
  string is a single sentence.
\<close>

definition isStopUnit :: "nat \<Rightarrow> bool" where
  "isStopUnit c = (c = 46 \<or> c = 33 \<or> c = 63)"

fun hasBoundary :: "jsstring \<Rightarrow> bool" where
  "hasBoundary (a # b # rest) = ((isStopUnit a \<and> isWhite b) \<or> hasBoundary (b # rest))"
| "hasBoundary s = False"

fun spec_lastSentence :: "jsstring \<Rightarrow> jsstring" where
  "spec_lastSentence (a # b # rest) =
     (if hasBoundary (b # rest) then spec_lastSentence (b # rest)
      else if isStopUnit a \<and> isWhite b then dropWhile isWhite rest
      else a # b # rest)"
| "spec_lastSentence s = s"

section \<open>Requests and the primary polling engine\<close>

text \<open>
  What \<^verbatim>\<open>await fetch(url)\<close> followed by \<^verbatim>\<open>res.json()\<close> can give: \<^verbatim>\<open>fetch\<close> throws, or
  there is a response with its \<^verbatim>\<open>ok\<close> flag (a 2xx status) and a body that decodes to a
  JSON value or does not decode (then \<^verbatim>\<open>res.json()\<close> throws).
\<close>

datatype fetchResult = NetworkError | HttpResponse bool "jsval option"

text \<open>
  \<^verbatim>\<open>a === b\<close> for values decoded from JSON. Two objects or arrays that come from two
  decodings are never the same reference.
\<close>

fun strictEq :: "jsval \<Rightarrow> jsval \<Rightarrow> bool" where
  "strictEq JUndefined JUndefined = True"
| "strictEq JNull JNull = True"
| "strictEq (JBool a) (JBool b) = (a = b)"
| "strictEq (JNum a) (JNum b) = (a = b \<and> a \<noteq> js ''NaN'')"
| "strictEq (JStr a) (JStr b) = (a = b)"
| "strictEq a b = False"







text \<open>A failure in the words of the specification: a network error or a status outside 2xx.\<close>

fun isFailure :: "fetchResult \<Rightarrow> bool" where
  "isFailure NetworkError = True"
| "isFailure (HttpResponse ok body) = (\<not> ok)"

section \<open>Chat messages and the chat polling engine\<close>

datatype msgType = User | Agent | Error

record chatMessage =
  msgId :: jsval
  msgType :: msgType
  msgContent :: jsstring
  msgTimestamp :: jsval
  msgResponse :: jsval
  msgStatus :: jsval
  msgAgentState :: jsval

text \<open>
  The state of the chat: the four state variables of the component, the interval and
  the \<^verbatim>\<open>cancelled\<close> flag of the chat polling effect, and \<open>submittedText\<close>, the constant
  \<^verbatim>\<open>userMessage\<close> of the call of \<^verbatim>\<open>handleChatSubmit\<close> that is waiting for its answer.
\<close>

record chatState =
  chatMessages :: "chatMessage list"
  isSendingChat :: bool
  submittedText :: jsstring
  currentChatResponseId :: jsval
  isChatPolling :: bool
  chatIntervalActive :: bool
  chatCancelled :: bool

text \<open>
  The chat polling effect (lines 256 to 319).
  \<^verbatim>\<open>
  const data = normalizeResponse(await res.json());
  if (!cancelled && data) {
    // Check if response is pending for too long - might indicate agent sleep
    if (data.status === 'pending' || data.status === 'processing') {
      try {
        const agentStateRes = await fetch(`/api/ra/agents/.../state`);
        if (agentStateRes.ok) {
          const agentData = await agentStateRes.json();
          if (agentData.state === 'slept') {
            setChatMessages(prev => prev.map(msg => msg.id === currentChatResponseId
              ? { ...msg, response: data, status: 'busy_timeout', agentState: 'slept' } : msg));
            setIsChatPolling(false); setCurrentChatResponseId(null);
            clearInterval(interval);
            return;
          }
        }
      } catch (stateErr) { console.error(...); }
    }
    setChatMessages(prev => prev.map(msg => msg.id === currentChatResponseId
      ? { ...msg, response: data, status: data.status } : msg));
    if (isTerminal(data.status)) {
      setIsChatPolling(false); setCurrentChatResponseId(null); clearInterval(interval);
    }
  }
  \<close>
  The failures of the outer \<^verbatim>\<open>try\<close> are only logged, also a throw of the last
  \<^verbatim>\<open>isTerminal\<close>, which leaves the messages updated and the poll running. Reading
  \<^verbatim>\<open>agentData.state\<close> on null throws inside the inner \<^verbatim>\<open>try\<close>, which is then left as if
  the agent were awake.
\<close>

definition agentReportsSlept :: "fetchResult \<Rightarrow> bool" where
  "agentReportsSlept agentStateRes =
     (case agentStateRes of
        HttpResponse True (Some agentData) \<Rightarrow>
          agentData \<noteq> JNull \<and> strictEq (getProp agentData (js ''state'')) (JStr (js ''slept''))
      | _ \<Rightarrow> False)"

definition isPendingOrProcessing :: "jsval \<Rightarrow> bool" where
  "isPendingOrProcessing status =
     (strictEq status (JStr (js ''pending'')) \<or> strictEq status (JStr (js ''processing'')))"

definition markBusyTimeout :: "jsval \<Rightarrow> jsval \<Rightarrow> chatMessage \<Rightarrow> chatMessage" where
  "markBusyTimeout cur data msg =
     (if strictEq (msgId msg) cur
      then msg\<lparr>msgResponse := data, msgStatus := JStr (js ''busy_timeout''),
               msgAgentState := JStr (js ''slept'')\<rparr>
      else msg)"

definition updateWithResponse :: "jsval \<Rightarrow> jsval \<Rightarrow> chatMessage \<Rightarrow> chatMessage" where
  "updateWithResponse cur data msg =
     (if strictEq (msgId msg) cur
      then msg\<lparr>msgResponse := data, msgStatus := getProp data (js ''status'')\<rparr>
      else msg)"

definition stopChatPolling :: "chatState \<Rightarrow> chatState" where
  "stopChatPolling st =
     st\<lparr>isChatPolling := False, currentChatResponseId := JNull, chatIntervalActive := False\<rparr>"

text \<open>
  One tick. \<open>agentStateRes\<close> is what the state endpoint answers if it is asked; the
  second component of the result says whether the tick asked it.
\<close>

definition chatPollTick :: "chatState \<Rightarrow> fetchResult \<Rightarrow> fetchResult \<Rightarrow> chatState \<times> bool" where
  "chatPollTick st res agentStateRes =
     (case res of
        NetworkError \<Rightarrow> (st, False)
      | HttpResponse ok body \<Rightarrow>
          if \<not> ok then (st, False)
          else
            (case body of
               None \<Rightarrow> (st, False)
             | Some json \<Rightarrow>
                 let data = normalizeResponse json;
                     cur = currentChatResponseId st in
                 if \<not> chatCancelled st \<and> truthy data
                 then
                   (let asked = isPendingOrProcessing (getProp data (js ''status'')) in
                    if asked \<and> agentReportsSlept agentStateRes
                    then (stopChatPolling
                            (st\<lparr>chatMessages := map (markBusyTimeout cur data) (chatMessages st)\<rparr>),
                          True)
                    else
                      (let st' = st\<lparr>chatMessages :=
                                       map (updateWithResponse cur data) (chatMessages st)\<rparr>
                       in (case isTerminal (getProp data (js ''status'')) of
                             Inl err \<Rightarrow> st'
                           | Inr terminal \<Rightarrow> if terminal then stopChatPolling st' else st',
                           asked)))
                 else (st, False)))"

section \<open>The chat timeline builder\<close>

text \<open>
  What the builder takes from the JavaScript runtime, for values whose conversion to a
  primitive does not throw: \<open>dateValue v\<close> is the time value in milliseconds of
  \<^verbatim>\<open>new Date(v)\<close>, \<open>None\<close> for an invalid date (NaN), and \<open>greaterThan500 v\<close> is the
  result of the comparison \<^verbatim>\<open>v > 500\<close> with its coercion of \<open>v\<close> to a number, asked
  only for a \<^verbatim>\<open>length\<close> property that JSON itself supplied.
\<close>

record runtime =
  dateValue :: "jsval \<Rightarrow> int option"
  greaterThan500 :: "jsval \<Rightarrow> bool"

text \<open>
  What the world answers while the loop handles one response: the clock and, if it is
  asked, the state endpoint.
\<close>

record moment =
  nowMs :: int
  nowIso :: jsstring
  stateAnswer :: fetchResult

text \<open>\<^verbatim>\<open>new Date(v)\<close>: the throw of the conversion, or the time value.\<close>

definition newDate :: "runtime \<Rightarrow> jsval \<Rightarrow> jserror + int option" where
  "newDate rt v = (case toString v of Inl err \<Rightarrow> Inl err | Inr text \<Rightarrow> Inr (dateValue rt v))"

text \<open>\<^verbatim>\<open>s.includes(sub)\<close> on strings.\<close>

fun startsWith :: "jsstring \<Rightarrow> jsstring \<Rightarrow> bool" where
  "startsWith s [] = True"
| "startsWith [] (c # cs) = False"
| "startsWith (x # xs) (c # cs) = (x = c \<and> startsWith xs cs)"

fun stringIncludes :: "jsstring \<Rightarrow> jsstring \<Rightarrow> bool" where
  "stringIncludes [] sub = (sub = [])"
| "stringIncludes (x # xs) sub = (startsWith (x # xs) sub \<or> stringIncludes xs sub)"

text \<open>\<^verbatim>\<open>v?.[0]\<close>: the first element of an array, the first unit of a string, the property
  \<^verbatim>\<open>0\<close> of an object, undefined otherwise.\<close>

definition firstItem :: "jsval \<Rightarrow> jsval" where
  "firstItem v =
     (case v of
        JArr xs \<Rightarrow> (case xs of [] \<Rightarrow> JUndefined | x # rest \<Rightarrow> x)
      | JStr s \<Rightarrow> (case s of [] \<Rightarrow> JUndefined | c # rest \<Rightarrow> JStr [c])
      | JObj fs \<Rightarrow> getProp (JObj fs) (js ''0'')
      | _ \<Rightarrow> JUndefined)"

text \<open>
  The test of line 137 on \<^verbatim>\<open>inputContent\<close>, a truthy value or the empty string:
  \<^verbatim>\<open>
  inputContent.length > 500 ||
    (inputContent.includes('Clone') && inputContent.includes('**Step 1:'))
  \<close>
  A string and an array have a length and the method \<^verbatim>\<open>includes\<close>. A number or a
  boolean has no length (\<^verbatim>\<open>undefined > 500\<close> is false) and no such method: the call
  throws a TypeError. So does the call on an object, which is reached unless the
  object's own \<^verbatim>\<open>length\<close> compares greater than 500; a \<^verbatim>\<open>length\<close> that cannot be
  converted makes the comparison itself throw the TypeError.
\<close>

definition looksLikeInitialPrompt :: "runtime \<Rightarrow> jsval \<Rightarrow> jserror + bool" where
  "looksLikeInitialPrompt rt inputContent =
     (case inputContent of
        JStr s \<Rightarrow>
          Inr (length s > 500 \<or> (stringIncludes s (js ''Clone'') \<and> stringIncludes s (js ''**Step 1:'')))
      | JArr xs \<Rightarrow>
          Inr (length xs > 500
               \<or> (JStr (js ''Clone'') \<in> set xs \<and> JStr (js ''**Step 1:'') \<in> set xs))
      | JObj fs \<Rightarrow>
          if convertible (getProp (JObj fs) (js ''length''))
             \<and> greaterThan500 rt (getProp (JObj fs) (js ''length''))
          then Inr True
          else Inl TypeError
      | _ \<Rightarrow> Inl TypeError)"

text \<open>
  The callback of \<^verbatim>\<open>allResponses.filter\<close> (lines 126 to 143).
  \<^verbatim>\<open>
  if (!r || !r.id) return false;
  if (r.id === derivedResponseId) return false;
  const inputContent = r.input_content?.[0]?.content || '';
  if (inputContent.length > 500 || (...)) { return false; }
  return true;
  \<close>
\<close>

definition filterInput :: "jsval \<Rightarrow> jsval" where
  "filterInput r =
     orElse (getProp (firstItem (getProp r (js ''input_content''))) (js ''content'')) (JStr [])"

definition keepResponse :: "runtime \<Rightarrow> jsval \<Rightarrow> jsval \<Rightarrow> jserror + bool" where
  "keepResponse rt derivedResponseId r =
     (if \<not> truthy r \<or> \<not> truthy (getProp r (js ''id'')) then Inr False
      else if strictEq (getProp r (js ''id'')) derivedResponseId then Inr False
      else
        (case looksLikeInitialPrompt rt (filterInput r) of
           Inl err \<Rightarrow> Inl err
         | Inr prompt \<Rightarrow> Inr (\<not> prompt)))"

text \<open>\<^verbatim>\<open>filter\<close> calls the callback on each element in order; a throw ends it.\<close>

fun filterResponses :: "runtime \<Rightarrow> jsval \<Rightarrow> jsval list \<Rightarrow> jserror + jsval list" where
  "filterResponses rt cur [] = Inr []"
| "filterResponses rt cur (r # rs) =
     (case keepResponse rt cur r of
        Inl err \<Rightarrow> Inl err
      | Inr keep \<Rightarrow>
          (case filterResponses rt cur rs of
             Inl err \<Rightarrow> Inl err
           | Inr kept \<Rightarrow> Inr (if keep then r # kept else kept)))"

text \<open>
  The comparator of \<^verbatim>\<open>sort\<close>: \<^verbatim>\<open>new Date(a.created_at || 0) - new Date(b.created_at || 0)\<close>.
  It throws when one of the two dates cannot be constructed. With an invalid date the
  difference is NaN, which \<^verbatim>\<open>sort\<close> reads as zero.
  \<^verbatim>\<open>Array.prototype.sort\<close> is stable; it is modelled by the stable insertion sort, which
  a throw of the comparator ends. In a list of two or more every element is an argument
  of some call of the comparator, here as in any sort, so the sort throws for the same
  lists. When the comparator is not an ordering (some date is invalid) the language
  leaves the order to the implementation, and the order here is one of those allowed.
\<close>

definition createdDate :: "runtime \<Rightarrow> jsval \<Rightarrow> jserror + int option" where
  "createdDate rt r = newDate rt (orElse (getProp r (js ''created_at'')) (JNum (js ''0'')))"

definition compareCreated :: "runtime \<Rightarrow> jsval \<Rightarrow> jsval \<Rightarrow> jserror + int" where
  "compareCreated rt a b =
     (case createdDate rt a of
        Inl err \<Rightarrow> Inl err
      | Inr dateA \<Rightarrow>
          (case createdDate rt b of
             Inl err \<Rightarrow> Inl err
           | Inr dateB \<Rightarrow>
               Inr (case (dateA, dateB) of
                      (Some timeA, Some timeB) \<Rightarrow> timeA - timeB
                    | _ \<Rightarrow> 0)))"

fun insertBy :: "('a \<Rightarrow> 'a \<Rightarrow> jserror + int) \<Rightarrow> 'a \<Rightarrow> 'a list \<Rightarrow> jserror + 'a list" where
  "insertBy cmp x [] = Inr [x]"
| "insertBy cmp x (y # ys) =
     (case cmp x y of
        Inl err \<Rightarrow> Inl err
      | Inr order \<Rightarrow>
          if order \<le> 0 then Inr (x # y # ys)
          else (case insertBy cmp x ys of Inl err \<Rightarrow> Inl err | Inr zs \<Rightarrow> Inr (y # zs)))"

fun sortBy :: "('a \<Rightarrow> 'a \<Rightarrow> jserror + int) \<Rightarrow> 'a list \<Rightarrow> jserror + 'a list" where
  "sortBy cmp [] = Inr []"
| "sortBy cmp (x # xs) =
     (case sortBy cmp xs of Inl err \<Rightarrow> Inl err | Inr ys \<Rightarrow> insertBy cmp x ys)"

text \<open>
  The loop over \<^verbatim>\<open>chatResponses\<close> (lines 153 to 206).
  \<^verbatim>\<open>
  let userContent = '';
  if (resp.input_content && Array.isArray(resp.input_content) && resp.input_content.length > 0) {
    const firstContent = resp.input_content[0];
    if (firstContent && typeof firstContent.content === 'string') {
      userContent = firstContent.content;
    }
  }
  if (!userContent || userContent.trim().length === 0) continue;
  messages.push({ id: `user-${resp.id}`, type: 'user', content: userContent,
    timestamp: resp.created_at || new Date().toISOString() });
  \<close>
  \<open>idText\<close> is the text the template literal has made of \<^verbatim>\<open>resp.id\<close>.
\<close>

definition userContentOf :: "jsval \<Rightarrow> jsstring" where
  "userContentOf resp =
     (case getProp resp (js ''input_content'') of
        JArr (firstContent # rest) \<Rightarrow>
          (if truthy firstContent
           then (case getProp firstContent (js ''content'') of JStr s \<Rightarrow> s | _ \<Rightarrow> [])
           else [])
      | _ \<Rightarrow> [])"

definition userMessage :: "jsstring \<Rightarrow> jsval \<Rightarrow> moment \<Rightarrow> chatMessage" where
  "userMessage idText resp m =
     \<lparr>msgId = JStr (js ''user-'' @ idText),
      msgType = User,
      msgContent = userContentOf resp,
      msgTimestamp = orElse (getProp resp (js ''created_at'')) (JStr (nowIso m)),
      msgResponse = JUndefined, msgStatus = JUndefined, msgAgentState = JUndefined\<rparr>"

text \<open>
  \<^verbatim>\<open>
  let finalStatus = resp.status;
  const responseAge = new Date() - new Date(resp.created_at);
  const isStale = responseAge > 3600000; // 1 hour old
  if ((resp.status === 'pending' || resp.status === 'processing') && isStale) {
    try {
      const agentStateRes = await fetch(`/api/ra/agents/.../state`);
      if (agentStateRes.ok) {
        const agentData = await agentStateRes.json();
        if (agentData.state === 'slept') { finalStatus = 'busy_timeout'; }
      }
    } catch (stateErr) { console.error(...); }
  }
  \<close>
  The loop below takes the throw of \<^verbatim>\<open>new Date(resp.created_at)\<close> first; \<open>isStale\<close> is
  the test on the date once it is there.
\<close>

definition isStale :: "runtime \<Rightarrow> jsval \<Rightarrow> moment \<Rightarrow> bool" where
  "isStale rt resp m =
     (case dateValue rt (getProp resp (js ''created_at'')) of
        Some created \<Rightarrow> nowMs m - created > 3600000
      | None \<Rightarrow> False)"

definition historyAsksAgentState :: "runtime \<Rightarrow> jsval \<Rightarrow> moment \<Rightarrow> bool" where
  "historyAsksAgentState rt resp m =
     (isPendingOrProcessing (getProp resp (js ''status'')) \<and> isStale rt resp m)"

definition finalStatus :: "runtime \<Rightarrow> jsval \<Rightarrow> moment \<Rightarrow> jsval" where
  "finalStatus rt resp m =
     (if historyAsksAgentState rt resp m \<and> agentReportsSlept (stateAnswer m)
      then JStr (js ''busy_timeout'')
      else getProp resp (js ''status''))"

definition agentMessage :: "runtime \<Rightarrow> jsval \<Rightarrow> moment \<Rightarrow> chatMessage" where
  "agentMessage rt resp m =
     \<lparr>msgId = getProp resp (js ''id''),
      msgType = Agent,
      msgContent = userContentOf resp,
      msgTimestamp = orElse (getProp resp (js ''updated_at''))
                      (orElse (getProp resp (js ''created_at'')) (JStr (nowIso m))),
      msgResponse = normalizeResponse resp,
      msgStatus = finalStatus rt resp m,
      msgAgentState = (if strictEq (finalStatus rt resp m) (JStr (js ''busy_timeout''))
                       then JStr (js ''slept'') else JUndefined)\<rparr>"

text \<open>
  \<open>world i\<close> is the moment at which the loop handles the response of index \<open>i\<close>. The
  template literal of the user message and \<^verbatim>\<open>new Date(resp.created_at)\<close> can throw;
  a throw leaves the loop and the function.
\<close>

fun historyLoop ::
  "runtime \<Rightarrow> (nat \<Rightarrow> moment) \<Rightarrow> nat \<Rightarrow> jsval list \<Rightarrow> jserror + chatMessage list" where
  "historyLoop rt world i [] = Inr []"
| "historyLoop rt world i (resp # rest) =
     (if \<not> truthy resp \<or> \<not> truthy (getProp resp (js ''id''))
      then historyLoop rt world (Suc i) rest
      else if userContentOf resp = [] \<or> trim (userContentOf resp) = []
      then historyLoop rt world (Suc i) rest
      else
        (case toString (getProp resp (js ''id'')) of
           Inl err \<Rightarrow> Inl err
         | Inr idText \<Rightarrow>
             (case newDate rt (getProp resp (js ''created_at'')) of
                Inl err \<Rightarrow> Inl err
              | Inr created \<Rightarrow>
                  (case historyLoop rt world (Suc i) rest of
                     Inl err \<Rightarrow> Inl err
                   | Inr later \<Rightarrow>
                       Inr (userMessage idText resp (world i)
                              # agentMessage rt resp (world i) # later)))))"

text \<open>
  \<^verbatim>\<open>loadChatHistory\<close> (lines 113 to 214). The result is the list given to
  \<^verbatim>\<open>setChatMessages\<close>, or \<open>None\<close> when the function ends without calling it: the request
  failed, or something threw (in the filter, the sort or the loop) and the outer
  \<^verbatim>\<open>catch\<close> took over. In every case \<^verbatim>\<open>isChatHistoryLoaded\<close> becomes true.
\<close>

definition loadChatHistory ::
  "runtime \<Rightarrow> jsval \<Rightarrow> fetchResult \<Rightarrow> (nat \<Rightarrow> moment) \<Rightarrow> chatMessage list option" where
  "loadChatHistory rt derivedResponseId allResponsesRes world =
     (case allResponsesRes of
        NetworkError \<Rightarrow> None
      | HttpResponse ok body \<Rightarrow>
          if \<not> ok then None
          else
            (case body of
               None \<Rightarrow> None
             | Some allResponses \<Rightarrow>
                 (case (case allResponses of
                          JArr rs \<Rightarrow> filterResponses rt derivedResponseId rs
                        | _ \<Rightarrow> Inr []) of
                    Inl err \<Rightarrow> None
                  | Inr kept \<Rightarrow>
                      (case sortBy (compareCreated rt) kept of
                         Inl err \<Rightarrow> None
                       | Inr chatResponses \<Rightarrow>
                           (case historyLoop rt world 0 chatResponses of
                              Inl err \<Rightarrow> None
                            | Inr messages \<Rightarrow> Some messages)))))"

text \<open>
  The words of the claims, to compare the builder with. \<open>claim_excluded\<close> lists the four
  reasons of the claim for leaving a response out; \<open>spec_excluded\<close> adds the guard of
  the code on a missing response or id. \<open>inputWellFormed\<close> says that the input of a
  response is absent or an array whose first item, if any, has a content that is a
  string or falsy; \<open>responseWellFormed\<close> adds that the id and the creation date can be
  converted to a string, as every string, number, boolean and absent value can.
\<close>

definition claim_excluded :: "jsval \<Rightarrow> jsval \<Rightarrow> bool" where
  "claim_excluded cur r =
     (strictEq (getProp r (js ''id'')) cur
      \<or> length (userContentOf r) > 500
      \<or> (stringIncludes (userContentOf r) (js ''Clone'') \<and> stringIncludes (userContentOf r) (js ''**Step 1:''))
      \<or> trim (userContentOf r) = [])"

definition spec_excluded :: "jsval \<Rightarrow> jsval \<Rightarrow> bool" where
  "spec_excluded cur r =
     (if truthy r \<and> truthy (getProp r (js ''id'')) then claim_excluded cur r else True)"

definition inputWellFormed :: "jsval \<Rightarrow> bool" where
  "inputWellFormed r =
     (case getProp r (js ''input_content'') of
        JArr items \<Rightarrow>
          (case items of
             [] \<Rightarrow> True
           | firstContent # rest \<Rightarrow>
               (case getProp firstContent (js ''content'') of
                  JStr s \<Rightarrow> True
                | c \<Rightarrow> \<not> truthy c))
      | ic \<Rightarrow> \<not> truthy ic)"

definition responseWellFormed :: "jsval \<Rightarrow> bool" where
  "responseWellFormed r =
     (inputWellFormed r \<and> convertible (getProp r (js ''id''))
      \<and> convertible (getProp r (js ''created_at'')))"

text \<open>
  What the filter keeps when no call throws, and what the loop then shows.
\<close>

definition keeps :: "jsval \<Rightarrow> jsval \<Rightarrow> bool" where
  "keeps cur r =
     (truthy r \<and> truthy (getProp r (js ''id'')) \<and> \<not> strictEq (getProp r (js ''id'')) cur
      \<and> \<not> (length (userContentOf r) > 500
            \<or> (stringIncludes (userContentOf r) (js ''Clone'')
               \<and> stringIncludes (userContentOf r) (js ''**Step 1:''))))"

definition shown :: "jsval \<Rightarrow> bool" where
  "shown r = (truthy r \<and> truthy (getProp r (js ''id'')) \<and> trim (userContentOf r) \<noteq> [])"

text \<open>
  The timeline in the words of the claim: the responses that are not excluded, oldest
  first by the time value of their creation date, each as a user message with the id
  \<^verbatim>\<open>user-\<close> and the text of the response id, followed by its agent message.
\<close>

definition createdKey :: "runtime \<Rightarrow> jsval \<Rightarrow> int option" where
  "createdKey rt r = dateValue rt (orElse (getProp r (js ''created_at'')) (JNum (js ''0'')))"

definition spec_timeline :: "runtime \<Rightarrow> jsval \<Rightarrow> jsval list \<Rightarrow> jsval list" where
  "spec_timeline rt cur rs =
     sort_key (\<lambda>r. the (createdKey rt r)) (filter (\<lambda>r. \<not> spec_excluded cur r) rs)"

definition idTextOf :: "jsval \<Rightarrow> jsstring" where
  "idTextOf r = (case toString (getProp r (js ''id'')) of Inl err \<Rightarrow> [] | Inr text \<Rightarrow> text)"

definition messagePair :: "jsval \<Rightarrow> (msgType \<times> jsval) list" where
  "messagePair r =
     [(User, JStr (js ''user-'' @ idTextOf r)), (Agent, getProp r (js ''id''))]"

section \<open>Sending a chat message\<close>

text \<open>
  \<^verbatim>\<open>handleChatSubmit\<close> (lines 322 to 379), in its two halves: up to the request, and
  from its answer on.
  \<^verbatim>\<open>
  if (!chatInput.trim() || isSendingChat || !derivedAgentName) return;
  const userMessage = chatInput.trim();
  setChatInput(''); setIsSendingChat(true);
  const userMsgId = Date.now().toString();
  setChatMessages(prev => [...prev, { id: userMsgId, type: 'user', content: userMessage,
    timestamp: new Date().toISOString() }]);
  try {
    const res = await fetch('/api/chat', {...});
    if (!res.ok) { throw new Error('Failed to send message'); }
    const chatResponse = await res.json();
    setChatMessages(prev => [...prev, { id: chatResponse.id, type: 'agent',
      content: userMessage, timestamp: new Date().toISOString(),
      response: chatResponse, status: chatResponse.status }]);
    setCurrentChatResponseId(chatResponse.id); setIsChatPolling(true);
  } catch (error) {
    setChatMessages(prev => [...prev, { id: Date.now().toString(), type: 'error',
      content: 'Failed to send message. Please try again.', timestamp: ... }]);
  } finally { setIsSendingChat(false); }
  \<close>
  \<open>agentNamed\<close> is the truth of \<^verbatim>\<open>derivedAgentName\<close>; \<open>stamp\<close> is \<^verbatim>\<open>Date.now().toString()\<close>
  and \<open>isoNow\<close> is \<^verbatim>\<open>new Date().toISOString()\<close>.
\<close>

definition submitStart :: "bool \<Rightarrow> chatState \<Rightarrow> jsstring \<Rightarrow> jsstring \<Rightarrow> jsstring \<Rightarrow> chatState" where
  "submitStart agentNamed st chatInput stamp isoNow =
     (if trim chatInput = [] \<or> isSendingChat st \<or> \<not> agentNamed then st
      else st\<lparr>isSendingChat := True,
              submittedText := trim chatInput,
              chatMessages := chatMessages st @
                [\<lparr>msgId = JStr stamp, msgType = User, msgContent = trim chatInput,
                  msgTimestamp = JStr isoNow, msgResponse = JUndefined, msgStatus = JUndefined,
                  msgAgentState = JUndefined\<rparr>]\<rparr>)"

definition failedToSend :: jsstring where
  "failedToSend = js ''Failed to send message. Please try again.''"

definition submitCatch :: "chatState \<Rightarrow> jsstring \<Rightarrow> jsstring \<Rightarrow> chatState" where
  "submitCatch st stamp isoNow =
     st\<lparr>isSendingChat := False,
        chatMessages := chatMessages st @
          [\<lparr>msgId = JStr stamp, msgType = Error, msgContent = failedToSend,
            msgTimestamp = JStr isoNow, msgResponse = JUndefined, msgStatus = JUndefined,
            msgAgentState = JUndefined\<rparr>]\<rparr>"

text \<open>
  The second half. A request that fails, a status that is not ok and a body that is
  not JSON go to the \<^verbatim>\<open>catch\<close>. When the body is the JSON \<^verbatim>\<open>null\<close>, the function given
  to \<^verbatim>\<open>setChatMessages\<close> is queued without being run to its end, \<^verbatim>\<open>chatResponse.id\<close>
  throws in the handler at \<^verbatim>\<open>setCurrentChatResponseId\<close>, and the \<^verbatim>\<open>catch\<close> queues the
  error message; at the next render the first queued function throws its TypeError,
  and the page, which has no error boundary, is unmounted: there is no next state,
  the result is \<open>None\<close>.
\<close>

definition submitFinish ::
  "chatState \<Rightarrow> fetchResult \<Rightarrow> jsstring \<Rightarrow> jsstring \<Rightarrow> chatState option" where
  "submitFinish st res stamp isoNow =
     (case res of
        NetworkError \<Rightarrow> Some (submitCatch st stamp isoNow)
      | HttpResponse ok body \<Rightarrow>
          if \<not> ok then Some (submitCatch st stamp isoNow)
          else
            (case body of
               None \<Rightarrow> Some (submitCatch st stamp isoNow)
             | Some chatResponse \<Rightarrow>
                 if chatResponse = JNull \<or> chatResponse = JUndefined then None
                 else
                   Some (st\<lparr>isSendingChat := False,
                      chatMessages := chatMessages st @
                        [\<lparr>msgId = getProp chatResponse (js ''id''), msgType = Agent,
                          msgContent = submittedText st, msgTimestamp = JStr isoNow,
                          msgResponse = chatResponse,
                          msgStatus = getProp chatResponse (js ''status''),
                          msgAgentState = JUndefined\<rparr>],
                      currentChatResponseId := getProp chatResponse (js ''id''),
                      isChatPolling := True,
                      chatIntervalActive := truthy (getProp chatResponse (js ''id'')),
                      chatCancelled := False\<rparr>)))"

text \<open>
  The chat states the page can reach from its first render: the history arrives (at any
  time, also while a message is being sent), a message is submitted, the answer to a
  submission arrives and the page is still there, the chat poll ticks.
\<close>

definition initialChat :: chatState where
  "initialChat = \<lparr>chatMessages = [], isSendingChat = False, submittedText = [],
     currentChatResponseId = JNull, isChatPolling = False, chatIntervalActive = False,
     chatCancelled = False\<rparr>"

inductive reachable :: "chatState \<Rightarrow> bool" where
  first_render: "reachable initialChat"
| history_loaded:
    "reachable st \<Longrightarrow> loadChatHistory rt cur res world = Some msgs \<Longrightarrow>
       reachable (st\<lparr>chatMessages := msgs\<rparr>)"
| submitted:
    "reachable st \<Longrightarrow> reachable (submitStart agentNamed st chatInput stamp isoNow)"
| answered:
    "reachable st \<Longrightarrow> isSendingChat st \<Longrightarrow> submitFinish st res stamp isoNow = Some st' \<Longrightarrow>
       reachable st'"
| ticked:
    "reachable st \<Longrightarrow> chatIntervalActive st \<Longrightarrow>
       reachable (fst (chatPollTick st res agentStateRes))"

text \<open>
  The pairing of the timeline, as the code keeps it. \<open>answeredBy inFlight text msgs\<close>:
  every user message is followed at once by an agent message with the same content or
  by the error message of a failed submission, except a user message in the last
  place, which is there only while a submission is in flight and then holds the
  submitted text.
\<close>

fun answeredBy :: "bool \<Rightarrow> jsstring \<Rightarrow> chatMessage list \<Rightarrow> bool" where
  "answeredBy inFlight text [] = True"
| "answeredBy inFlight text [m] =
     (if msgType m = User then inFlight \<and> msgContent m = text else True)"
| "answeredBy inFlight text (m # n # rest) =
     ((if msgType m = User
       then (msgType n = Agent \<and> msgContent n = msgContent m)
            \<or> (msgType n = Error \<and> msgContent n = failedToSend)
       else True)
      \<and> answeredBy inFlight text (n # rest))"

text \<open>
  The timeline that the history builder makes: pairs of a user message and the agent
  message of the same response, the user message with the id \<^verbatim>\<open>user-\<close> and the text of
  the response id, the agent message with the response id itself and the response.
\<close>

fun historyShaped :: "chatMessage list \<Rightarrow> bool" where
  "historyShaped [] = True"
| "historyShaped [m] = False"
| "historyShaped (m # n # rest) =
     (msgType m = User \<and> msgType n = Agent
      \<and> toString (msgId n) \<noteq> Inl TypeError
      \<and> msgId m = JStr (js ''user-'' @ (case toString (msgId n) of Inl err \<Rightarrow> [] | Inr text \<Rightarrow> text))
      \<and> msgContent n = msgContent m
      \<and> getProp (msgResponse n) (js ''id'') = msgId n
      \<and> historyShaped rest)"

text \<open>
  The pairing in the words of the claim: a user message that is not the most recent
  user message has an agent message after it.
\<close>

fun claim_paired :: "msgType list \<Rightarrow> bool" where
  "claim_paired [] = True"
| "claim_paired (t # rest) =
     ((if t = User \<and> User \<in> set rest then Agent \<in> set rest else True) \<and> claim_paired rest)"

section \<open>Example inputs\<close>

text \<open>A value whose conversion to a string throws: the JSON \<^verbatim>\<open>{"toString": 1}\<close>.\<close>

definition unconvertible :: jsval where
  "unconvertible = JObj [(js ''toString'', JNum (js ''1''))]"



text \<open>
  A chat with one follow-up in flight: the user message, the placeholder of response
  \<^verbatim>\<open>r1\<close>, and the poll running. \<open>statusBody s\<close> is the body the poll receives for \<^verbatim>\<open>r1\<close>
  with status \<open>s\<close>; \<open>sleptAnswer\<close> is the state endpoint reporting a dormant agent.
\<close>

definition chatExample :: chatState where
  "chatExample =
     \<lparr>chatMessages =
        [\<lparr>msgId = JStr (js ''1793613600000''), msgType = User, msgContent = js ''hello'',
          msgTimestamp = JStr (js ''2026-11-02T10:00:00.000Z''), msgResponse = JUndefined,
          msgStatus = JUndefined, msgAgentState = JUndefined\<rparr>,
         \<lparr>msgId = JStr (js ''r1''), msgType = Agent, msgContent = js ''hello'',
          msgTimestamp = JStr (js ''2026-11-02T10:00:01.000Z''),
          msgResponse = JObj [(js ''id'', JStr (js ''r1'')), (js ''status'', JStr (js ''pending''))],
          msgStatus = JStr (js ''pending''), msgAgentState = JUndefined\<rparr>],
      isSendingChat = False, submittedText = js ''hello'',
      currentChatResponseId = JStr (js ''r1''),
      isChatPolling = True, chatIntervalActive = True, chatCancelled = False\<rparr>"

definition statusBody :: "string \<Rightarrow> jsval" where
  "statusBody s =
     JObj [(js ''id'', JStr (js ''r1'')), (js ''status'', JStr (js s)),
           (js ''created_at'', JStr (js ''2026-11-02T10:00:01.000Z'')),
           (js ''segments'', JArr []), (js ''output_content'', JArr [])]"

definition sleptAnswer :: fetchResult where
  "sleptAnswer = HttpResponse True (Some (JObj [(js ''state'', JStr (js ''slept''))]))"

text \<open>
  A runtime that reads the two timestamps of the examples, and the moments one second
  and two hours after the later one, with the agent dormant.
\<close>

definition exampleRuntime :: runtime where
  "exampleRuntime =
     \<lparr>dateValue = map_of
        [(JStr (js ''2026-11-02T09:00:00.000Z''), 1793610000000),
         (JStr (js ''2026-11-02T10:00:01.000Z''), 1793613601000),
         (JNum (js ''0''), 0)],
      greaterThan500 = (\<lambda>v. False)\<rparr>"

definition aSecondLater :: moment where
  "aSecondLater =
     \<lparr>nowMs = 1793613602000, nowIso = js ''2026-11-02T10:00:02.000Z'',
      stateAnswer = sleptAnswer\<rparr>"

definition twoHoursLater :: moment where
  "twoHoursLater =
     \<lparr>nowMs = 1793620801000, nowIso = js ''2026-11-02T12:00:01.000Z'',
      stateAnswer = sleptAnswer\<rparr>"

text \<open>
  Responses as the list endpoint returns them. \<open>chatResponse i text t\<close> is a completed
  follow-up with id \<open>i\<close>, input \<open>text\<close> and creation time \<open>t\<close>. The fetched list has two
  follow-ups, newest first, and four responses to leave out: \<^verbatim>\<open>r3\<close> holds both marks of
  the generated prompt, \<^verbatim>\<open>r4\<close> is blank, \<^verbatim>\<open>r5\<close> has 501 units, \<^verbatim>\<open>r0\<close> is the current
  response. \<open>noIdResponse\<close> has an input and no id; the id of \<open>unconvertibleIdResponse\<close>
  cannot be converted to a string.
\<close>

definition chatResponse :: "string \<Rightarrow> string \<Rightarrow> string \<Rightarrow> jsval" where
  "chatResponse i text t =
     JObj [(js ''id'', JStr (js i)),
           (js ''input_content'',
              JArr [JObj [(js ''type'', JStr (js ''text'')), (js ''content'', JStr (js text))]]),
           (js ''status'', JStr (js ''completed'')),
           (js ''created_at'', JStr (js t))]"

definition fetchedResponses :: "jsval list" where
  "fetchedResponses =
     [chatResponse ''r2'' ''and the second question'' ''2026-11-02T10:00:01.000Z'',
      chatResponse ''r3'' ''Clone the repo. **Step 1: detect tests'' ''2026-11-02T09:00:00.000Z'',
      chatResponse ''r4'' ''   '' ''2026-11-02T09:00:00.000Z'',
      chatResponse ''r1'' ''a first question'' ''2026-11-02T09:00:00.000Z'',
      chatResponse ''r5'' (replicate 501 CHR ''x'') ''2026-11-02T09:00:00.000Z'',
      chatResponse ''r0'' ''the first request'' ''2026-11-02T09:00:00.000Z'']"

definition unconvertibleIdResponse :: jsval where
  "unconvertibleIdResponse =
     JObj [(js ''id'', unconvertible),
           (js ''input_content'', JArr [JObj [(js ''content'', JStr (js ''hi''))]]),
           (js ''created_at'', JStr (js ''2026-11-02T09:00:00.000Z''))]"

definition noIdResponse :: jsval where
  "noIdResponse =
     JObj [(js ''input_content'', JArr [JObj [(js ''content'', JStr (js ''hi''))]]),
           (js ''created_at'', JStr (js ''2026-11-02T09:00:00.000Z''))]"

text \<open>
  Two submissions that both fail, and the second one while it is still in flight.
\<close>

definition failedOnce :: chatState where
  "failedOnce =
     submitCatch
       (submitStart True initialChat (js ''hello'') (js ''1793613600000'')
          (js ''2026-11-02T10:00:00.000Z''))
       (js ''1793613600500'') (js ''2026-11-02T10:00:00.500Z'')"

definition retrying :: chatState where
  "retrying =
     submitStart True failedOnce (js ''hello again'') (js ''1793613601000'')
       (js ''2026-11-02T10:00:01.000Z'')"

definition failedTwice :: chatState where
  "failedTwice = submitCatch retrying (js ''1793613601500'') (js ''2026-11-02T10:00:01.500Z'')"

text \<open>
  A conversation: a first message is sent and accepted as response \<^verbatim>\<open>r1\<close>, the poll
  sees \<^verbatim>\<open>r1\<close> completed, a second message fails, a third is on its way.
\<close>

definition acceptedBody :: jsval where
  "acceptedBody = JObj [(js ''id'', JStr (js ''r1'')), (js ''status'', JStr (js ''pending''))]"

definition firstSent :: chatState where
  "firstSent =
     submitStart True initialChat (js '' hello '') (js ''1793613600000'')
       (js ''2026-11-02T10:00:00.000Z'')"

definition firstAccepted :: chatState where
  "firstAccepted =
     firstSent\<lparr>isSendingChat := False,
        chatMessages := chatMessages firstSent @
          [\<lparr>msgId = JStr (js ''r1''), msgType = Agent, msgContent = js ''hello'',
            msgTimestamp = JStr (js ''2026-11-02T10:00:01.000Z''), msgResponse = acceptedBody,
            msgStatus = JStr (js ''pending''), msgAgentState = JUndefined\<rparr>],
        currentChatResponseId := JStr (js ''r1''), isChatPolling := True,
        chatIntervalActive := True, chatCancelled := False\<rparr>"

definition firstCompleted :: chatState where
  "firstCompleted =
     fst (chatPollTick firstAccepted (HttpResponse True (Some (statusBody ''completed'')))
            NetworkError)"

definition secondFailed :: chatState where
  "secondFailed =
     submitCatch
       (submitStart True firstCompleted (js ''and then?'') (js ''1793613660000'')
          (js ''2026-11-02T10:01:00.000Z''))
       (js ''1793613660500'') (js ''2026-11-02T10:01:00.500Z'')"

definition thirdSent :: chatState where
  "thirdSent =
     submitStart True secondFailed (js ''once more'') (js ''1793613720000'')
       (js ''2026-11-02T10:02:00.000Z'')"

section \<open>Properties of the classifier and the normalizer\<close>

lemma terminal_set:
  "set TERMINAL_STATUSES = {js ''completed'', js ''failed'', js ''cancelled''}"
  by (auto simp: TERMINAL_STATUSES_def)

lemma falsy_not_terminal_text:
  "\<not> truthy v \<Longrightarrow>
     \<exists>text. toString v = Inr text \<and> toLowerCase text \<notin> set TERMINAL_STATUSES"
  by (cases v) (auto simp: TERMINAL_STATUSES_def toLowerCase_def lowerUnit_def js_def)

lemma isTerminal_member:
  "isTerminal status =
     (case toString status of
        Inl err \<Rightarrow> Inl err
      | Inr text \<Rightarrow> Inr (toLowerCase text \<in> set TERMINAL_STATUSES))"
  using falsy_not_terminal_text [of status]
  by (auto simp: isTerminal_def)

lemma isTerminal_string:
  "isTerminal (JStr s) = Inr (toLowerCase s \<in> set TERMINAL_STATUSES)"
  by (simp add: isTerminal_member)

lemma object_text_not_terminal:
  "toLowerCase (js ''[object Object]'') \<notin> set TERMINAL_STATUSES"
  by (simp add: TERMINAL_STATUSES_def toLowerCase_def lowerUnit_def js_def)

text \<open>
  Claim C5, corrected. For every status that is a string, \<^verbatim>\<open>isTerminal\<close> returns true
  exactly when the string, lower-cased, is \<^verbatim>\<open>completed\<close>, \<^verbatim>\<open>failed\<close> or \<^verbatim>\<open>cancelled\<close>; it
  returns false for null, for undefined, for the empty string, for a boolean and for
  an object without a \<^verbatim>\<open>toString\<close> property of its own. For an object with such a
  property it throws a TypeError. For every status, it throws when the conversion of
  the status to a string throws, and otherwise returns whether the converted status,
  lower-cased, is one of the three names.
\<close>

theorem isTerminal_spec:
  "isTerminal (JStr s)
     = Inr (toLowerCase s \<in> {js ''completed'', js ''failed'', js ''cancelled''})
   \<and> isTerminal JNull = Inr False \<and> isTerminal JUndefined = Inr False
   \<and> isTerminal (JStr []) = Inr False \<and> isTerminal (JBool b) = Inr False
   \<and> isTerminal (JObj fs)
       = (if map_of fs (js ''toString'') = None then Inr False else Inl TypeError)
   \<and> isTerminal status =
       (case toString status of
          Inl err \<Rightarrow> Inl err
        | Inr text \<Rightarrow>
            Inr (toLowerCase text \<in> {js ''completed'', js ''failed'', js ''cancelled''}))"
proof -
  have "isTerminal (JStr s)
     = Inr (toLowerCase s \<in> {js ''completed'', js ''failed'', js ''cancelled''})"
    by (simp only: isTerminal_string terminal_set)
  moreover have "isTerminal JNull = Inr False" "isTerminal JUndefined = Inr False"
    "isTerminal (JStr []) = Inr False"
    by (simp_all add: isTerminal_def)
  moreover have "isTerminal (JBool b) = Inr False"
    by (cases b) (simp_all add: isTerminal_def TERMINAL_STATUSES_def toLowerCase_def
        lowerUnit_def js_def)
  moreover have "isTerminal (JObj fs)
       = (if map_of fs (js ''toString'') = None then Inr False else Inl TypeError)"
    using object_text_not_terminal by (simp add: isTerminal_def)
  moreover have "isTerminal status =
       (case toString status of
          Inl err \<Rightarrow> Inl err
        | Inr text \<Rightarrow>
            Inr (toLowerCase text \<in> {js ''completed'', js ''failed'', js ''cancelled''}))"
    by (simp only: isTerminal_member terminal_set)
  ultimately show ?thesis by blast
qed

theorem isTerminal_spec_witness:
  "isTerminal (JStr (js ''CANCELLED'')) = Inr True \<and> isTerminal (JStr (js ''Failed'')) = Inr True
   \<and> isTerminal (JStr (js ''processing'')) = Inr False \<and> isTerminal JNull = Inr False
   \<and> isTerminal (JObj [(js ''status'', JStr (js ''completed''))]) = Inr False"
  using isTerminal_spec [of "js ''CANCELLED''" False "[(js ''status'', JStr (js ''completed''))]" JNull]
    isTerminal_spec [of "js ''Failed''" False "[]" JNull]
    isTerminal_spec [of "js ''processing''" False "[]" JNull]
  by (simp add: toLowerCase_def lowerUnit_def js_def)

text \<open>
  The claim as it was written covers every status value. The JSON value
  \<^verbatim>\<open>{"toString": 1}\<close> is a status for which \<^verbatim>\<open>isTerminal\<close> returns neither true nor false:
  \<^verbatim>\<open>String(status)\<close> throws a TypeError.
\<close>

theorem isTerminal_counterexample:
  "isTerminal unconvertible = Inl TypeError
   \<and> isTerminal unconvertible \<noteq> Inr True \<and> isTerminal unconvertible \<noteq> Inr False"
  by (simp add: isTerminal_def unconvertible_def js_def)

lemma getProp_JObj:
  "getProp (JObj fs) k = (case map_of fs k of Some x \<Rightarrow> x | None \<Rightarrow> JUndefined)"
  by (simp add: getProp_def)

lemma key_segments_neq_output: "js ''segments'' \<noteq> js ''output_content''"
  by (simp add: js_def)

text \<open>
  Claim C4. \<^verbatim>\<open>normalizeResponse\<close> is a total function of its input. A falsy input, or
  one that \<^verbatim>\<open>typeof\<close> does not call an object, gives null. Any other input gives an
  object whose \<^verbatim>\<open>segments\<close> and \<^verbatim>\<open>output_content\<close> are arrays: the input's own when it
  is an array, the empty array when it is absent or something else; every other
  property of the input is in the result with the value it had.
\<close>

theorem normalizeResponse_spec:
  "(if truthy resp \<and> typeof resp = TObject
    then \<exists>fs. normalizeResponse resp = JObj fs
       \<and> getProp (JObj fs) (js ''segments'') =
           (if isArray (getProp resp (js ''segments''))
            then getProp resp (js ''segments'') else JArr [])
       \<and> getProp (JObj fs) (js ''output_content'') =
           (if isArray (getProp resp (js ''output_content''))
            then getProp resp (js ''output_content'') else JArr [])
       \<and> isArray (getProp (JObj fs) (js ''segments''))
       \<and> isArray (getProp (JObj fs) (js ''output_content''))
       \<and> (\<forall>k. k \<noteq> js ''segments'' \<and> k \<noteq> js ''output_content'' \<longrightarrow>
              map_of fs k = map_of (ownFields resp) k)
    else normalizeResponse resp = JNull)"
proof (cases "truthy resp \<and> typeof resp = TObject")
  case False
  then show ?thesis by (auto simp: normalizeResponse_def)
next
  case True
  define seg where "seg = (if isArray (getProp resp (js ''segments''))
                           then getProp resp (js ''segments'') else JArr [])"
  define out where "out = (if isArray (getProp resp (js ''output_content''))
                           then getProp resp (js ''output_content'') else JArr [])"
  define fs where "fs = AList.update (js ''output_content'') out
                          (AList.update (js ''segments'') seg (ownFields resp))"
  have res: "normalizeResponse resp = JObj fs"
    using True by (simp add: normalizeResponse_def fs_def seg_def out_def Let_def)
  have gs: "getProp (JObj fs) (js ''segments'') = seg"
    using key_segments_neq_output by (simp add: getProp_JObj fs_def update_conv')
  have go: "getProp (JObj fs) (js ''output_content'') = out"
    by (simp add: getProp_JObj fs_def update_conv')
  have as: "isArray seg" by (simp add: seg_def)
  have ao: "isArray out" by (simp add: out_def)
  have rest: "\<forall>k. k \<noteq> js ''segments'' \<and> k \<noteq> js ''output_content'' \<longrightarrow>
                map_of fs k = map_of (ownFields resp) k"
    by (simp add: fs_def update_conv')
  show ?thesis
    using True res gs go as ao rest unfolding seg_def out_def by auto
qed

theorem normalizeResponse_spec_witness:
  "normalizeResponse (JObj [(js ''id'', JStr (js ''r1'')), (js ''segments'', JStr (js ''x''))])
     = JObj [(js ''id'', JStr (js ''r1'')), (js ''segments'', JArr []),
             (js ''output_content'', JArr [])]
   \<and> normalizeResponse JNull = JNull \<and> normalizeResponse (JStr (js ''text'')) = JNull"
  using normalizeResponse_spec [of "JObj [(js ''id'', JStr (js ''r1'')), (js ''segments'', JStr (js ''x''))]"]
    normalizeResponse_spec [of JNull] normalizeResponse_spec [of "JStr (js ''text'')"]
  by (simp add: normalizeResponse_def getProp_def js_def)

text \<open>
  Claim C10. Normalizing an already normalized response, or null, changes nothing.
\<close>

theorem normalizeResponse_idempotent:
  "normalizeResponse (normalizeResponse x) = normalizeResponse x"
proof (cases "truthy x \<and> typeof x = TObject")
  case False
  then show ?thesis by (auto simp: normalizeResponse_def)
next
  case True
  define seg where "seg = (if isArray (getProp x (js ''segments''))
                           then getProp x (js ''segments'') else JArr [])"
  define out where "out = (if isArray (getProp x (js ''output_content''))
                           then getProp x (js ''output_content'') else JArr [])"
  define fs where "fs = AList.update (js ''output_content'') out
                          (AList.update (js ''segments'') seg (ownFields x))"
  have res: "normalizeResponse x = JObj fs"
    using True by (simp add: normalizeResponse_def fs_def seg_def out_def Let_def)
  have ms: "map_of fs (js ''segments'') = Some seg"
    using key_segments_neq_output by (simp add: fs_def update_conv')
  have mo: "map_of fs (js ''output_content'') = Some out"
    by (simp add: fs_def update_conv')
  have as: "isArray seg" by (simp add: seg_def)
  have ao: "isArray out" by (simp add: out_def)
  have s1: "AList.update (js ''segments'') seg fs = fs"
    using ms by (rule update_triv)
  have s2: "AList.update (js ''output_content'') out fs = fs"
    using mo by (rule update_triv)
  have "normalizeResponse (JObj fs) = JObj fs"
    using ms mo as ao s1 s2 by (simp add: normalizeResponse_def getProp_JObj)
  then show ?thesis by (simp add: res)
qed

theorem normalizeResponse_idempotent_witness:
  "normalizeResponse (normalizeResponse (JObj [(js ''status'', JStr (js ''pending''))]))
     = normalizeResponse (JObj [(js ''status'', JStr (js ''pending''))])
   \<and> normalizeResponse (normalizeResponse JNull) = normalizeResponse JNull"
  using normalizeResponse_idempotent [of "JObj [(js ''status'', JStr (js ''pending''))]"]
    normalizeResponse_idempotent [of JNull]
  by simp

section \<open>Properties of the commentary functions\<close>

lemma readable_type_string:
  assumes "typeReadable e" "truthy e" "typeof e = TObject"
  obtains s where "orElse (getProp e (js ''type'')) (JStr []) = JStr s"
proof -
  from assms have "typeof (orElse (getProp e (js ''type'')) (JStr [])) = TString"
    by (simp add: typeReadable_def)
  then show ?thesis
    using that by (cases "orElse (getProp e (js ''type'')) (JStr [])") auto
qed

lemma commentaryLoop_step:
  assumes "typeReadable e" "segments ! idx = e"
  shows "commentaryLoop segments (Suc idx) =
           (if isCommentaryEntry e then Inr (entryText e) else commentaryLoop segments idx)"
proof (cases "truthy e \<and> typeof e = TObject")
  case False
  then show ?thesis using assms(2) by (auto simp: isCommentaryEntry_def)
next
  case True
  then obtain s where s: "orElse (getProp e (js ''type'')) (JStr []) = JStr s"
    using assms(1) readable_type_string by blast
  show ?thesis
    using True assms(2) s
    by (simp add: isCommentaryEntry_def callToLowerCase_def Let_def)
qed

lemma commentaryLoop_unreadable:
  assumes "\<not> typeReadable e" "segments ! idx = e"
  shows "commentaryLoop segments (Suc idx) = Inl TypeError"
proof -
  have obj: "truthy e" "typeof e = TObject"
    using assms(1) by (auto simp: typeReadable_def split: if_splits)
  have "typeof (orElse (getProp e (js ''type'')) (JStr [])) \<noteq> TString"
    using assms(1) obj by (simp add: typeReadable_def)
  then have "callToLowerCase (orElse (getProp e (js ''type'')) (JStr [])) = Inl TypeError"
    by (cases "orElse (getProp e (js ''type'')) (JStr [])") (simp_all add: callToLowerCase_def)
  then show ?thesis using obj assms(2) by simp
qed

lemma unreadable_not_commentary: "\<not> typeReadable e \<Longrightarrow> \<not> isCommentaryEntry e"
  by (cases "orElse (getProp e (js ''type'')) (JStr [])")
     (auto simp: typeReadable_def isCommentaryEntry_def split: if_splits)

lemma commentaryLoop_general:
  "n \<le> length xs \<Longrightarrow>
     commentaryLoop xs n =
       (case List.find (\<lambda>e. isCommentaryEntry e \<or> \<not> typeReadable e) (rev (take n xs)) of
          None \<Rightarrow> Inr JNull
        | Some e \<Rightarrow> if typeReadable e then Inr (entryText e) else Inl TypeError)"
proof (induction n)
  case 0
  then show ?case by simp
next
  case (Suc n)
  then have lt: "n < length xs" by simp
  have tk: "take (Suc n) xs = take n xs @ [xs ! n]"
    using lt by (simp add: take_Suc_conv_app_nth)
  show ?case
  proof (cases "typeReadable (xs ! n)")
    case True
    then show ?thesis
      using commentaryLoop_step [OF True refl] Suc.IH lt by (simp add: tk)
  next
    case False
    then show ?thesis
      using commentaryLoop_unreadable [OF False refl] by (simp add: tk)
  qed
qed

lemma commentaryLoop_find:
  "n \<le> length xs \<Longrightarrow> \<forall>e \<in> set (take n xs). typeReadable e \<Longrightarrow>
     commentaryLoop xs n = Inr (spec_latestCommentary (take n xs))"
proof (induction n)
  case 0
  then show ?case by (simp add: spec_latestCommentary_def)
next
  case (Suc n)
  then have lt: "n < length xs" by simp
  have tk: "take (Suc n) xs = take n xs @ [xs ! n]"
    using lt by (simp add: take_Suc_conv_app_nth)
  have rd: "typeReadable (xs ! n)" using Suc.prems(2) tk by simp
  have ih: "commentaryLoop xs n = Inr (spec_latestCommentary (take n xs))"
    using Suc.IH Suc.prems lt tk by simp
  show ?case
    using commentaryLoop_step [OF rd refl] ih
    by (simp add: tk spec_latestCommentary_def)
qed

text \<open>
  Claim C6, as amended. Take a segment sequence in which the type of every object entry
  is a string or a falsy value. \<^verbatim>\<open>extractLatestCommentary\<close> scans it from the last entry
  backward and returns the text (\<^verbatim>\<open>text\<close>, or \<^verbatim>\<open>content\<close> when \<^verbatim>\<open>text\<close> is falsy) of the
  first entry it meets whose type lower-cases to \<^verbatim>\<open>commentary\<close> and whose text is a
  string that is not blank; it returns null when there is none, and when the input is
  not a sequence. For any sequence, the scan ends at the first entry from the end that
  is such a commentary entry or an object whose type is a truthy value other than a
  string, and throws a TypeError at the latter.
\<close>

theorem extractLatestCommentary_spec:
  "((\<forall>e \<in> set xs. typeReadable e) \<longrightarrow>
      extractLatestCommentary (JArr xs) = Inr (spec_latestCommentary xs))
   \<and> (\<not> isArray v \<longrightarrow> extractLatestCommentary v = Inr JNull)
   \<and> extractLatestCommentary (JArr xs) =
       (case List.find (\<lambda>e. isCommentaryEntry e \<or> \<not> typeReadable e) (rev xs) of
          None \<Rightarrow> Inr JNull
        | Some e \<Rightarrow> if typeReadable e then Inr (entryText e) else Inl TypeError)"
proof -
  have "extractLatestCommentary (JArr xs) = Inr (spec_latestCommentary xs)"
    if "\<forall>e \<in> set xs. typeReadable e"
    using commentaryLoop_find [of "length xs" xs] that
    by (simp add: extractLatestCommentary_def)
  moreover have "extractLatestCommentary v = Inr JNull" if "\<not> isArray v"
    using that by (cases v) (simp_all add: extractLatestCommentary_def)
  moreover have "extractLatestCommentary (JArr xs) =
       (case List.find (\<lambda>e. isCommentaryEntry e \<or> \<not> typeReadable e) (rev xs) of
          None \<Rightarrow> Inr JNull
        | Some e \<Rightarrow> if typeReadable e then Inr (entryText e) else Inl TypeError)"
    using commentaryLoop_general [of "length xs" xs]
    by (simp add: extractLatestCommentary_def)
  ultimately show ?thesis by blast
qed

lemma example_segments_readable:
  "\<forall>e \<in> set [JObj [(js ''type'', JStr (js ''commentary'')), (js ''text'', JStr (js ''a''))],
              JObj [(js ''type'', JStr (js ''other''))],
              JObj [(js ''type'', JStr (js ''commentary'')), (js ''text'', JStr (js ''b''))]].
     typeReadable e"
  by (simp add: typeReadable_def orElse_def getProp_def js_def)

lemma example_segments_latest:
  "spec_latestCommentary
     [JObj [(js ''type'', JStr (js ''commentary'')), (js ''text'', JStr (js ''a''))],
      JObj [(js ''type'', JStr (js ''other''))],
      JObj [(js ''type'', JStr (js ''commentary'')), (js ''text'', JStr (js ''b''))]]
   = JStr (js ''b'')"
  by (simp add: spec_latestCommentary_def isCommentaryEntry_def entryText_def nonBlankString_def
      trim_def isWhite_def orElse_def getProp_def toLowerCase_def lowerUnit_def js_def)

theorem extractLatestCommentary_spec_witness:
  "extractLatestCommentary
     (JArr [JObj [(js ''type'', JStr (js ''commentary'')), (js ''text'', JStr (js ''a''))],
            JObj [(js ''type'', JStr (js ''other''))],
            JObj [(js ''type'', JStr (js ''commentary'')), (js ''text'', JStr (js ''b''))]])
     = Inr (JStr (js ''b''))
   \<and> extractLatestCommentary (JStr (js ''commentary'')) = Inr JNull"
  using extractLatestCommentary_spec
    [of "[JObj [(js ''type'', JStr (js ''commentary'')), (js ''text'', JStr (js ''a''))],
          JObj [(js ''type'', JStr (js ''other''))],
          JObj [(js ''type'', JStr (js ''commentary'')), (js ''text'', JStr (js ''b''))]]"
        "JStr (js ''commentary'')"]
    example_segments_readable example_segments_latest
  by simp

text \<open>
  The claim as first stated covers every segment sequence. With the segments
  \<^verbatim>\<open>[{type:'commentary',text:'a'}, {type:5}]\<close> the words of the claim give \<^verbatim>\<open>'a'\<close>, and
  the function throws a TypeError at the last entry.
\<close>

theorem extractLatestCommentary_counterexample:
  "spec_latestCommentary
     [JObj [(js ''type'', JStr (js ''commentary'')), (js ''text'', JStr (js ''a''))],
      JObj [(js ''type'', JNum (js ''5''))]] = JStr (js ''a'')
   \<and> extractLatestCommentary
     (JArr [JObj [(js ''type'', JStr (js ''commentary'')), (js ''text'', JStr (js ''a''))],
            JObj [(js ''type'', JNum (js ''5''))]]) = Inl TypeError"
  by (simp add: spec_latestCommentary_def isCommentaryEntry_def entryText_def nonBlankString_def
      trim_def isWhite_def orElse_def getProp_def toLowerCase_def lowerUnit_def js_def
      extractLatestCommentary_def callToLowerCase_def numeral_2_eq_2)

lemma trim_prefix: "\<exists>ws. dropWhile isWhite s = trim s @ ws"
proof -
  have "rev (dropWhile isWhite s) =
          takeWhile isWhite (rev (dropWhile isWhite s)) @ dropWhile isWhite (rev (dropWhile isWhite s))"
    by simp
  then have "dropWhile isWhite s =
          rev (dropWhile isWhite (rev (dropWhile isWhite s))) @ rev (takeWhile isWhite (rev (dropWhile isWhite s)))"
    by (metis rev_append rev_rev_ident)
  then show ?thesis by (auto simp: trim_def)
qed

lemma trim_hd_not_white:
  assumes "trim s \<noteq> []"
  shows "\<not> isWhite (hd (trim s))"
proof -
  obtain ws where ws: "dropWhile isWhite s = trim s @ ws" using trim_prefix by blast
  then have ne: "dropWhile isWhite s \<noteq> []" using assms by auto
  have "hd (dropWhile isWhite s) = hd (trim s)" using ws assms by simp
  moreover have "\<not> isWhite (hd (dropWhile isWhite s))" using ne by (rule hd_dropWhile)
  ultimately show ?thesis by simp
qed

lemma splitFrom_first:
  "cur \<noteq> [] \<Longrightarrow> splitFrom prev cur rest \<noteq> [] \<and> hd (splitFrom prev cur rest) \<noteq> []"
  by (induction prev cur rest rule: splitFrom.induct) auto

lemma sentencesOf_nonempty:
  assumes "cleaned \<noteq> []" "\<not> isWhite (hd cleaned)"
  shows "sentencesOf cleaned \<noteq> []"
proof -
  obtain c cs where c: "cleaned = c # cs" using assms(1) by (cases cleaned) auto
  then have "splitSentences cleaned = splitFrom (Some c) [c] cs"
    using assms(2) by (simp add: splitSentences_def)
  moreover have "splitFrom (Some c) [c] cs \<noteq> [] \<and> hd (splitFrom (Some c) [c] cs) \<noteq> []"
    by (rule splitFrom_first) simp
  ultimately have "hd (splitSentences cleaned) \<in> set (splitSentences cleaned)"
    "hd (splitSentences cleaned) \<noteq> []" by auto
  then show ?thesis by (auto simp: sentencesOf_def filter_empty_conv)
qed

lemma sentencesOf_cleanText:
  "cleanText s \<noteq> [] \<Longrightarrow> sentencesOf (cleanText s) \<noteq> []"
  using sentencesOf_nonempty trim_hd_not_white by (simp add: cleanText_def)

lemma collapseWs_no_white:
  "\<forall>c \<in> set s. \<not> isWhite c \<Longrightarrow> collapseWs s = s"
  by (induction s) auto

lemma trim_no_white:
  assumes "\<forall>c \<in> set s. \<not> isWhite c"
  shows "trim s = s"
proof -
  have "dropWhile isWhite s = s" using assms by (simp add: dropWhile_eq_self_iff hd_in_set)
  moreover have "dropWhile isWhite (rev s) = rev s"
    using assms by (cases "s = []") (simp_all add: dropWhile_eq_self_iff hd_rev)
  ultimately show ?thesis by (simp add: trim_def)
qed

lemma splitFrom_no_white:
  "\<forall>c \<in> set rest. \<not> isWhite c \<Longrightarrow> splitFrom prev cur rest = [rev cur @ rest]"
  by (induction rest arbitrary: prev cur) auto

lemma single_sentence:
  assumes "\<forall>c \<in> set s. \<not> isWhite c" "s \<noteq> []"
  shows "cleanText s = s" "last (sentencesOf s) = s"
  using assms
  by (simp_all add: cleanText_def collapseWs_no_white trim_no_white sentencesOf_def
      splitSentences_def splitFrom_no_white)

lemma isWhite_space: "isWhite 32"
  by (simp add: isWhite_def)

lemma collapseWs_word:
  "\<forall>u \<in> set w. \<not> isWhite u \<Longrightarrow> collapseWs (w @ r) = w @ collapseWs r"
  by (induction w) auto

lemma rtrim_append:
  "rev (dropWhile isWhite (rev (x @ y))) =
     (if \<forall>u \<in> set y. isWhite u then rev (dropWhile isWhite (rev x))
      else x @ rev (dropWhile isWhite (rev y)))"
  by (simp add: dropWhile_append)

lemma wordsOf_Nil: "wordsOf [] = []"
  by (simp add: wordsOf.simps)

lemma wordsOf_dropWhile: "wordsOf (dropWhile isWhite s) = wordsOf s"
  by (simp add: wordsOf.simps [of "dropWhile isWhite s"] wordsOf.simps [of s])

lemma wordsOf_word:
  "\<not> isWhite c \<Longrightarrow>
     wordsOf (c # cs) = (c # takeWhile (\<lambda>u. \<not> isWhite u) cs)
                          # wordsOf (dropWhile (\<lambda>u. \<not> isWhite u) cs)"
  by (simp add: wordsOf.simps [of "c # cs"])

lemma collapseWs_head:
  "t = [] \<or> \<not> isWhite (hd t) \<Longrightarrow> dropWhile isWhite (collapseWs t) = collapseWs t"
  by (cases t) auto

lemma start_of_dropWhile: "dropWhile isWhite s = [] \<or> \<not> isWhite (hd (dropWhile isWhite s))"
  using hd_dropWhile [of isWhite s] by blast

lemma ltrim_collapseWs:
  "dropWhile isWhite (collapseWs s) = collapseWs (dropWhile isWhite s)"
proof (cases s)
  case Nil
  then show ?thesis by simp
next
  case (Cons c cs)
  show ?thesis
  proof (cases "isWhite c")
    case True
    have "dropWhile isWhite (collapseWs (dropWhile isWhite cs)) = collapseWs (dropWhile isWhite cs)"
      using start_of_dropWhile [of cs] by (rule collapseWs_head)
    then show ?thesis using Cons True by (simp add: isWhite_space)
  next
    case False
    then show ?thesis using Cons by simp
  qed
qed

lemma rtrim_collapseWs:
  "t = [] \<or> \<not> isWhite (hd t) \<Longrightarrow>
     rev (dropWhile isWhite (rev (collapseWs t))) = spec_clean t"
proof (induction t rule: length_induct)
  case (1 t)
  show ?case
  proof (cases t)
    case Nil
    then show ?thesis by (simp add: spec_clean_def wordsOf_Nil)
  next
    case (Cons c cs)
    then have nw: "\<not> isWhite c" using "1.prems" by simp
    define w where "w = c # takeWhile (\<lambda>u. \<not> isWhite u) cs"
    define r where "r = dropWhile (\<lambda>u. \<not> isWhite u) cs"
    have t: "t = w @ r" by (simp add: Cons w_def r_def)
    have wn: "\<forall>u \<in> set w. \<not> isWhite u"
      using nw by (auto simp: w_def dest: set_takeWhileD)
    have wl: "rev (dropWhile isWhite (rev w)) = w"
    proof -
      have "w \<noteq> []" by (simp add: w_def)
      then have "\<not> isWhite (hd (rev w))" using wn by (simp add: hd_rev)
      then show ?thesis using \<open>w \<noteq> []\<close> by (cases "rev w") auto
    qed
    have words: "wordsOf t = w # wordsOf r"
      using nw by (simp add: Cons w_def r_def wordsOf_word)
    have col: "collapseWs t = w @ collapseWs r"
      unfolding t using wn by (rule collapseWs_word)
    show ?thesis
    proof (cases r)
      case Nil
      then show ?thesis by (simp add: col wl spec_clean_def words wordsOf_Nil)
    next
      case (Cons d ds)
      then have wd: "isWhite d"
        using hd_dropWhile [of "\<lambda>u. \<not> isWhite u" cs] by (simp add: r_def)
      define r' where "r' = dropWhile isWhite ds"
      have cr: "collapseWs r = 32 # collapseWs r'"
        using Cons wd by (simp add: r'_def)
      have start: "r' = [] \<or> \<not> isWhite (hd r')"
        unfolding r'_def by (rule start_of_dropWhile)
      have "length r' \<le> length ds" unfolding r'_def by (rule length_dropWhile_le)
      then have shorter: "length r' < length t" by (simp add: t Cons)
      have ih: "rev (dropWhile isWhite (rev (collapseWs r'))) = spec_clean r'"
        using "1.IH" shorter start by blast
      have wr: "wordsOf r = wordsOf r'"
        using wordsOf_dropWhile [of r] Cons wd by (simp add: r'_def)
      show ?thesis
      proof (cases r')
        case Nil
        then show ?thesis
          by (simp add: col cr rtrim_append isWhite_space wl spec_clean_def words wr wordsOf_Nil)
      next
        case (Cons e es)
        then have ne: "\<not> isWhite e" using start by simp
        then have some: "\<not> (\<forall>u \<in> set (collapseWs r'). isWhite u)"
          using Cons by auto
        obtain v vs where vs: "wordsOf r' = v # vs"
          using ne Cons by (simp add: wordsOf_word)
        have "rev (dropWhile isWhite (rev (collapseWs t)))
            = w @ rev (dropWhile isWhite (rev ([32] @ collapseWs r')))"
          using rtrim_append [of w "[32] @ collapseWs r'"] some by (simp add: col cr)
        also have "\<dots> = w @ [32] @ rev (dropWhile isWhite (rev (collapseWs r')))"
          using rtrim_append [of "[32]" "collapseWs r'"] some by simp
        also have "\<dots> = w @ [32] @ spec_clean r'" by (simp only: ih)
        also have "\<dots> = spec_clean t"
          by (simp add: spec_clean_def words wr vs)
        finally show ?thesis .
      qed
    qed
  qed
qed

lemma cleanText_spec_clean: "cleanText s = spec_clean s"
proof -
  have "cleanText s = rev (dropWhile isWhite (rev (collapseWs (dropWhile isWhite s))))"
    by (simp add: cleanText_def trim_def ltrim_collapseWs)
  also have "\<dots> = spec_clean (dropWhile isWhite s)"
    using start_of_dropWhile [of s] by (rule rtrim_collapseWs)
  also have "\<dots> = spec_clean s"
    by (simp add: spec_clean_def wordsOf_dropWhile)
  finally show ?thesis .
qed

lemma stop_not_white: "isStopUnit c \<Longrightarrow> \<not> isWhite c"
  by (auto simp: isStopUnit_def isWhite_def)

lemma isStop_unit: "isStop prev = isStopUnit (case prev of Some p \<Rightarrow> p | None \<Rightarrow> 0)"
  by (cases prev) (auto simp: isStop_def isStopUnit_def)

lemma hasBoundary_white: "isWhite w \<Longrightarrow> hasBoundary (w # s) = hasBoundary s"
  using stop_not_white [of w] by (cases s) auto

lemma hasBoundary_dropWhile: "hasBoundary (dropWhile isWhite s) = hasBoundary s"
  by (induction s) (simp_all add: hasBoundary_white)

lemma lastSentence_skip: "hasBoundary s \<Longrightarrow> spec_lastSentence (a # s) = spec_lastSentence s"
  by (cases s) auto

lemma lastSentence_dropWhile:
  "hasBoundary s \<Longrightarrow> spec_lastSentence (dropWhile isWhite s) = spec_lastSentence s"
proof (induction s)
  case Nil
  then show ?case by simp
next
  case (Cons c cs)
  show ?case
  proof (cases "isWhite c")
    case True
    then have hb: "hasBoundary cs" using Cons.prems by (simp add: hasBoundary_white)
    then show ?thesis using True Cons.IH by (simp add: lastSentence_skip)
  next
    case False
    then show ?thesis by simp
  qed
qed

lemma lastSentence_single: "\<not> hasBoundary s \<Longrightarrow> spec_lastSentence s = s"
  by (induction s rule: spec_lastSentence.induct) auto

lemma splitFrom_nonempty: "splitFrom prev cur rest \<noteq> []"
  by (induction prev cur rest rule: splitFrom.induct) auto

lemma last_filter_keep: "xs \<noteq> [] \<Longrightarrow> P (last xs) \<Longrightarrow> last (filter P xs) = last xs"
proof (induction xs)
  case Nil
  then show ?case by simp
next
  case (Cons x xs)
  show ?case
  proof (cases "xs = []")
    case True
    then show ?thesis using Cons.prems by simp
  next
    case False
    then have "last xs \<in> set xs" "P (last xs)" using Cons.prems by auto
    then have "filter P xs \<noteq> []" by (auto simp: filter_empty_conv)
    then show ?thesis using Cons False by simp
  qed
qed

lemma splitFrom_last:
  "last (splitFrom prev cur rest) =
     (if hasBoundary ((case prev of Some p \<Rightarrow> p | None \<Rightarrow> 0) # rest)
      then spec_lastSentence ((case prev of Some p \<Rightarrow> p | None \<Rightarrow> 0) # rest)
      else rev cur @ rest)"
proof (induction prev cur rest rule: splitFrom.induct)
  case (1 prev cur)
  then show ?case by simp
next
  case (2 prev cur c cs)
  define pu where "pu = (case prev of Some p \<Rightarrow> p | None \<Rightarrow> (0::nat))"
  show ?case
  proof (cases "isWhite c \<and> isStop prev")
    case True
    then have w: "isWhite c" and st: "isStopUnit pu" by (simp_all add: isStop_unit pu_def)
    define d where "d = dropWhile isWhite cs"
    have ne: "splitFrom (Some 32) [] d \<noteq> []" by (rule splitFrom_nonempty)
    have ih: "last (splitFrom (Some 32) [] d) =
        (if hasBoundary (32 # d) then spec_lastSentence (32 # d) else d)"
      using "2.IH"(1) True by (simp add: d_def)
    have hb: "hasBoundary (32 # d) = hasBoundary (c # cs)"
      using w by (simp add: hasBoundary_white isWhite_space d_def hasBoundary_dropWhile)
    have ls: "spec_lastSentence (32 # d) = spec_lastSentence (c # cs)" if "hasBoundary (c # cs)"
    proof -
      have b1: "hasBoundary cs" using that w by (simp add: hasBoundary_white)
      then have b2: "hasBoundary d" by (simp add: d_def hasBoundary_dropWhile)
      have "spec_lastSentence (32 # d) = spec_lastSentence d" using b2 by (rule lastSentence_skip)
      also have "\<dots> = spec_lastSentence cs"
        unfolding d_def using b1 by (rule lastSentence_dropWhile)
      also have "\<dots> = spec_lastSentence (c # cs)" using b1 by (simp add: lastSentence_skip)
      finally show ?thesis .
    qed
    have lhs: "last (splitFrom prev cur (c # cs)) = last (splitFrom (Some 32) [] d)"
      using True ne by (simp add: d_def)
    have rhs: "hasBoundary (pu # c # cs)" using w st by simp
    have rhs2: "spec_lastSentence (pu # c # cs) =
        (if hasBoundary (c # cs) then spec_lastSentence (c # cs) else d)"
      using w st by (simp add: d_def)
    show ?thesis
      unfolding pu_def [symmetric] using lhs ih hb ls rhs rhs2 by simp
  next
    case False
    then have nb: "\<not> (isStopUnit pu \<and> isWhite c)" by (auto simp: isStop_unit pu_def)
    have ih: "last (splitFrom (Some c) (c # cur) cs) =
        (if hasBoundary (c # cs) then spec_lastSentence (c # cs) else rev (c # cur) @ cs)"
      using "2.IH"(2) False by simp
    have lhs: "last (splitFrom prev cur (c # cs)) = last (splitFrom (Some c) (c # cur) cs)"
      using False by auto
    have rhs: "hasBoundary (pu # c # cs) = hasBoundary (c # cs)" using nb by auto
    have rhs2: "hasBoundary (c # cs) \<Longrightarrow>
        spec_lastSentence (pu # c # cs) = spec_lastSentence (c # cs)"
      by (rule lastSentence_skip)
    show ?thesis
      unfolding pu_def [symmetric] using lhs ih rhs rhs2 by simp
  qed
qed

lemma splitSentences_last: "last (splitSentences s) = spec_lastSentence s"
proof -
  have z: "\<not> isStopUnit 0" by (simp add: isStopUnit_def)
  have hb: "hasBoundary (0 # s) = hasBoundary s" using z by (cases s) auto
  show ?thesis
  proof (cases "hasBoundary s")
    case True
    then show ?thesis
      using splitFrom_last [of None "[]" s] hb by (simp add: splitSentences_def lastSentence_skip)
  next
    case False
    then show ?thesis
      using splitFrom_last [of None "[]" s] hb by (simp add: splitSentences_def lastSentence_single)
  qed
qed

lemma lastSentence_nonempty:
  "s \<noteq> [] \<Longrightarrow> \<not> isWhite (last s) \<Longrightarrow> spec_lastSentence s \<noteq> []"
proof (induction s rule: spec_lastSentence.induct)
  case (1 a b rest)
  show ?case
  proof (cases "hasBoundary (b # rest)")
    case True
    then show ?thesis using 1 by simp
  next
    case False
    show ?thesis
    proof (cases "isStopUnit a \<and> isWhite b")
      case True
      then have "rest \<noteq> []" using "1.prems"(2) by auto
      then have "last rest \<in> set rest" "\<not> isWhite (last rest)" using "1.prems"(2) by auto
      then have "dropWhile isWhite rest \<noteq> []" by (auto simp: dropWhile_eq_Nil_conv)
      then show ?thesis using True False by simp
    next
      case False
      then show ?thesis using \<open>\<not> hasBoundary (b # rest)\<close> by auto
    qed
  qed
qed auto

lemma trim_last_not_white:
  assumes "trim s \<noteq> []"
  shows "\<not> isWhite (last (trim s))"
proof -
  define t where "t = dropWhile isWhite (rev (dropWhile isWhite s))"
  have ne: "t \<noteq> []" using assms by (simp add: trim_def t_def)
  have "\<not> isWhite (hd t)" unfolding t_def using ne [unfolded t_def] by (rule hd_dropWhile)
  moreover have "last (trim s) = hd t" using ne by (simp add: trim_def t_def last_rev)
  ultimately show ?thesis by simp
qed

lemma sentencesOf_last:
  assumes "cleanText s \<noteq> []"
  shows "last (sentencesOf (cleanText s)) = spec_lastSentence (cleanText s)"
proof -
  have "\<not> isWhite (last (cleanText s))"
    using assms trim_last_not_white by (simp add: cleanText_def)
  then have "spec_lastSentence (cleanText s) \<noteq> []"
    using assms lastSentence_nonempty by blast
  then have "last (splitSentences (cleanText s)) \<noteq> []" by (simp add: splitSentences_last)
  moreover have "splitSentences (cleanText s) \<noteq> []"
    by (simp add: splitSentences_def splitFrom_nonempty)
  ultimately have "last (filter (\<lambda>piece. piece \<noteq> []) (splitSentences (cleanText s)))
      = last (splitSentences (cleanText s))"
    using last_filter_keep [of "splitSentences (cleanText s)" "\<lambda>piece. piece \<noteq> []"] by blast
  then show ?thesis by (simp add: sentencesOf_def splitSentences_last)
qed

lemma hasBoundary_append: "hasBoundary (front @ c # w # final)"
  if "isStopUnit c" "isWhite w"
  using that by (induction front rule: hasBoundary.induct) auto

lemma lastSentence_final:
  assumes "isStopUnit c" "isWhite w" "final \<noteq> []" "\<not> isWhite (hd final)" "\<not> hasBoundary final"
  shows "spec_lastSentence (front @ c # w # final) = final"
proof (induction front)
  case Nil
  have "\<not> hasBoundary (w # final)" using assms(2,5) by (simp add: hasBoundary_white)
  moreover have "dropWhile isWhite final = final" using assms(3,4) by (cases final) auto
  ultimately show ?case using assms(1,2) by simp
next
  case (Cons a front)
  have "hasBoundary (front @ c # w # final)" using assms(1,2) by (rule hasBoundary_append)
  then show ?case using Cons.IH by (simp add: lastSentence_skip)
qed

text \<open>
  Claim C3, as amended. For every input string, \<^verbatim>\<open>formatCommentary\<close> collapses the runs of
  white space to single spaces and trims: the cleaned string is the words of the input
  joined by single spaces. An empty cleaned string gives null. A cleaned string of at
  most 140 units is returned as it is. In a longer one the last sentence, which is what
  follows the last \<^verbatim>\<open>.\<close>, \<^verbatim>\<open>!\<close> or \<^verbatim>\<open>?\<close> that has white space after it, is returned when it
  has at most 140 units; otherwise the first 137 units of the cleaned string followed
  by the ellipsis are returned, 138 units in all. In particular, a cleaned string of
  more than 140 units that ends with a sentence of at most 140 units after such a place
  gives exactly that sentence, and a cleaned string of more than 140 units that is a
  single sentence gives its first 137 units and the ellipsis.
\<close>

theorem formatCommentary_spec:
  "formatCommentary (JStr s) =
     Inr (if spec_clean s = [] then JNull
          else if length (spec_clean s) \<le> 140 then JStr (spec_clean s)
          else if length (spec_lastSentence (spec_clean s)) \<le> 140
               then JStr (spec_lastSentence (spec_clean s))
          else JStr (take 137 (spec_clean s) @ [ellipsis]))
   \<and> (140 < length (spec_clean s) \<longrightarrow> length (take 137 (spec_clean s) @ [ellipsis]) = 138)
   \<and> (140 < length (spec_clean s) \<and> spec_clean s = front @ c # w # final
        \<and> isStopUnit c \<and> isWhite w \<and> final \<noteq> [] \<and> \<not> isWhite (hd final)
        \<and> \<not> hasBoundary final \<and> length final \<le> 140 \<longrightarrow>
        formatCommentary (JStr s) = Inr (JStr final))
   \<and> (140 < length (spec_clean s) \<and> \<not> hasBoundary (spec_clean s) \<longrightarrow>
        formatCommentary (JStr s) = Inr (JStr (take 137 (spec_clean s) @ [ellipsis])))"
proof -
  have main: "formatCommentary (JStr s) =
     Inr (if spec_clean s = [] then JNull
          else if length (spec_clean s) \<le> 140 then JStr (spec_clean s)
          else if length (spec_lastSentence (spec_clean s)) \<le> 140
               then JStr (spec_lastSentence (spec_clean s))
          else JStr (take 137 (spec_clean s) @ [ellipsis]))"
  proof (cases "cleanText s = []")
    case True
    then show ?thesis
      by (cases "s = []") (simp_all add: formatCommentary_def cleanText_spec_clean [symmetric])
  next
    case False
    then have "s \<noteq> []" by (auto simp: cleanText_def trim_def)
    moreover have "sentencesOf (cleanText s) \<noteq> []"
      using False by (rule sentencesOf_cleanText)
    moreover have "last (sentencesOf (cleanText s)) = spec_lastSentence (cleanText s)"
      using False by (rule sentencesOf_last)
    ultimately show ?thesis
      using False by (simp add: formatCommentary_def Let_def cleanText_spec_clean [symmetric])
  qed
  have len: "140 < length (spec_clean s) \<longrightarrow> length (take 137 (spec_clean s) @ [ellipsis]) = 138"
    by simp
  have final: "formatCommentary (JStr s) = Inr (JStr final)"
    if "140 < length (spec_clean s)" "spec_clean s = front @ c # w # final"
      "isStopUnit c" "isWhite w" "final \<noteq> []" "\<not> isWhite (hd final)"
      "\<not> hasBoundary final" "length final \<le> 140"
  proof -
    have "spec_lastSentence (spec_clean s) = final"
      unfolding that(2) using that(3-7) by (rule lastSentence_final)
    moreover have "spec_clean s \<noteq> []" using that(1) by auto
    ultimately show ?thesis using that(1,8) by (simp add: main)
  qed
  have single: "formatCommentary (JStr s) = Inr (JStr (take 137 (spec_clean s) @ [ellipsis]))"
    if "140 < length (spec_clean s)" "\<not> hasBoundary (spec_clean s)"
  proof -
    have "spec_lastSentence (spec_clean s) = spec_clean s"
      using that(2) by (rule lastSentence_single)
    moreover have "spec_clean s \<noteq> []" using that(1) by auto
    ultimately show ?thesis using that(1) by (simp add: main)
  qed
  show ?thesis using main len final single by blast
qed

lemma clean_example: "cleanText (js ''  a   b  '') = js ''a b''"
  by (simp add: cleanText_def trim_def isWhite_def js_def)

lemma clean_blank: "cleanText (js ''   '') = []"
  by (simp add: cleanText_def trim_def isWhite_def js_def)

lemma replicate_no_white: "\<forall>c \<in> set (replicate n 97). \<not> isWhite c"
  by (simp add: isWhite_def)

lemma no_stop_no_boundary: "\<forall>c \<in> set s. \<not> isStopUnit c \<Longrightarrow> \<not> hasBoundary s"
  by (induction s rule: hasBoundary.induct) auto

lemma clean_already:
  assumes "s \<noteq> []" "\<not> isWhite (hd s)" "\<not> isWhite (last s)" "collapseWs s = s"
  shows "cleanText s = s"
proof -
  have "dropWhile isWhite s = s" using assms(1,2) by (cases s) auto
  moreover have "dropWhile isWhite (rev s) = rev s"
    using assms(1,3) by (cases "rev s") (auto simp: hd_rev [symmetric])
  ultimately show ?thesis using assms(4) by (simp add: cleanText_def trim_def)
qed

lemma clean_long: "spec_clean (replicate 200 97) = replicate 200 97"
  using single_sentence(1) [OF replicate_no_white, of 200]
  by (simp add: cleanText_spec_clean)

lemma clean_two_words:
  "spec_clean (replicate 99 97 @ 32 # replicate 100 98) = replicate 99 97 @ 32 # replicate 100 98"
proof -
  have "collapseWs (replicate 100 98) = replicate 100 98"
    by (rule collapseWs_no_white) (simp add: isWhite_def)
  then have "collapseWs (replicate 99 97 @ 32 # replicate 100 98)
      = replicate 99 97 @ 32 # replicate 100 98"
    using collapseWs_word [OF replicate_no_white, of 99 "32 # replicate 100 98"]
    by (simp add: isWhite_def)
  then have "cleanText (replicate 99 97 @ 32 # replicate 100 98)
      = replicate 99 97 @ 32 # replicate 100 98"
    by (intro clean_already) (simp_all add: isWhite_def hd_append)
  then show ?thesis by (simp add: cleanText_spec_clean)
qed

lemma clean_two_sentences:
  "spec_clean (replicate 150 97 @ js ''. Short end.'') = replicate 150 97 @ js ''. Short end.''"
proof -
  have "collapseWs (replicate 150 97 @ js ''. Short end.'') = replicate 150 97 @ js ''. Short end.''"
    using collapseWs_word [OF replicate_no_white, of 150 "js ''. Short end.''"]
    by (simp add: isWhite_def js_def)
  then have "cleanText (replicate 150 97 @ js ''. Short end.'')
      = replicate 150 97 @ js ''. Short end.''"
    by (intro clean_already) (simp_all add: isWhite_def hd_append js_def)
  then show ?thesis by (simp add: cleanText_spec_clean)
qed

theorem formatCommentary_spec_witness:
  "formatCommentary (JStr (js ''  a   b  '')) = Inr (JStr (js ''a b''))
   \<and> formatCommentary (JStr (replicate 150 97 @ js ''. Short end.'')) = Inr (JStr (js ''Short end.''))
   \<and> formatCommentary (JStr (replicate 200 97)) = Inr (JStr (replicate 137 97 @ [ellipsis]))
   \<and> formatCommentary (JStr (replicate 99 97 @ 32 # replicate 100 98))
       = Inr (JStr (replicate 99 97 @ 32 # replicate 37 98 @ [ellipsis]))
   \<and> length (replicate 99 (97::nat) @ 32 # replicate 37 98 @ [ellipsis]) = 138
   \<and> formatCommentary (JStr (js ''   '')) = Inr JNull"
proof -
  have "formatCommentary (JStr (js ''  a   b  '')) = Inr (JStr (js ''a b''))"
    using formatCommentary_spec [of "js ''  a   b  ''" "[]" 0 0 "[]",
        unfolded cleanText_spec_clean [symmetric] clean_example]
    by (simp add: js_def)
  moreover have "formatCommentary (JStr (replicate 150 97 @ js ''. Short end.''))
      = Inr (JStr (js ''Short end.''))"
    using formatCommentary_spec [of "replicate 150 97 @ js ''. Short end.''"
        "replicate 150 97" 46 32 "js ''Short end.''", unfolded clean_two_sentences,
        THEN conjunct2, THEN conjunct2, THEN conjunct1]
      no_stop_no_boundary [of "js ''Short end.''"]
    by (simp add: isStopUnit_def isWhite_def js_def)
  moreover have "formatCommentary (JStr (replicate 200 97))
      = Inr (JStr (replicate 137 97 @ [ellipsis]))"
    using formatCommentary_spec [of "replicate 200 97" "[]" 0 0 "[]", unfolded clean_long,
        THEN conjunct2, THEN conjunct2, THEN conjunct2]
      no_stop_no_boundary [of "replicate 200 97"]
    by (simp add: isStopUnit_def)
  moreover have "formatCommentary (JStr (replicate 99 97 @ 32 # replicate 100 98))
      = Inr (JStr (replicate 99 97 @ 32 # replicate 37 98 @ [ellipsis]))"
    using formatCommentary_spec [of "replicate 99 97 @ 32 # replicate 100 98" "[]" 0 0 "[]",
        unfolded clean_two_words, THEN conjunct2, THEN conjunct2, THEN conjunct2]
      no_stop_no_boundary [of "replicate 99 97 @ 32 # replicate 100 98"]
    by (simp add: isStopUnit_def)
  moreover have "formatCommentary (JStr (js ''   '')) = Inr JNull"
    using formatCommentary_spec [of "js ''   ''" "[]" 0 0 "[]",
        unfolded cleanText_spec_clean [symmetric] clean_blank]
    by simp
  ultimately show ?thesis by simp
qed

lemma dropWhile_spaces: "dropWhile isWhite (replicate n 32 @ r) = dropWhile isWhite r"
  by (induction n) (simp_all add: isWhite_space)

lemma collapseWs_spaces:
  "0 < n \<Longrightarrow> collapseWs (replicate n 32 @ r) = 32 # collapseWs (dropWhile isWhite r)"
  by (cases n) (simp_all add: isWhite_space dropWhile_spaces)

lemma clean_spaced: "cleanText (97 # replicate 198 32 @ [98]) = [97, 32, 98]"
  using collapseWs_spaces [of 198 "[98]"]
  by (simp add: cleanText_def trim_def isWhite_def)

text \<open>
  The claim as first stated returns the cleaned string as it is whenever it has at most
  140 units, and has a result of 138 units for every single-sentence input of 200. For
  the input of three spaces the cleaned string is empty and the function returns null,
  not the empty string. The input of 200 units made of \<^verbatim>\<open>a\<close>, 198 spaces and \<^verbatim>\<open>b\<close> has no
  sentence boundary, and the function returns the three units \<^verbatim>\<open>a b\<close>.
\<close>

theorem formatCommentary_counterexample:
  "cleanText (js ''   '') = [] \<and> length (cleanText (js ''   '')) \<le> 140
   \<and> formatCommentary (JStr (js ''   '')) = Inr JNull
   \<and> formatCommentary (JStr (js ''   '')) \<noteq> Inr (JStr (cleanText (js ''   '')))
   \<and> length (97 # replicate 198 32 @ [98::nat]) = 200
   \<and> \<not> hasBoundary (97 # replicate 198 32 @ [98])
   \<and> formatCommentary (JStr (97 # replicate 198 32 @ [98])) = Inr (JStr (js ''a b''))"
proof -
  have "formatCommentary (JStr (js ''   '')) = Inr JNull"
    by (simp add: formatCommentary_def clean_blank)
  moreover have "\<not> hasBoundary (97 # replicate 198 32 @ [98])"
    by (rule no_stop_no_boundary) (simp add: isStopUnit_def)
  moreover have "formatCommentary (JStr (97 # replicate 198 32 @ [98])) = Inr (JStr (js ''a b''))"
    by (simp add: formatCommentary_def clean_spaced) (simp add: js_def)
  ultimately show ?thesis by (simp add: clean_blank)
qed

section \<open>Properties of the primary polling engine\<close>
















section \<open>Properties of the chat polling engine\<close>

lemma isPendingOrProcessing_iff:
  "isPendingOrProcessing status \<longleftrightarrow>
     status = JStr (js ''pending'') \<or> status = JStr (js ''processing'')"
  by (cases status) (auto simp: isPendingOrProcessing_def)

lemma statusBody_normal: "normalizeResponse (statusBody s) = statusBody s"
  by (simp add: statusBody_def normalizeResponse_def getProp_def js_def)

lemma statusBody_status: "getProp (statusBody s) (js ''status'') = JStr (js s)"
  by (simp add: statusBody_def getProp_def js_def)

lemma sleptAnswer_slept: "agentReportsSlept sleptAnswer"
  by (simp add: sleptAnswer_def agentReportsSlept_def getProp_def js_def)

lemma chatPollTick_asks:
  "snd (chatPollTick st (HttpResponse True (Some json)) agentStateRes) \<longleftrightarrow>
     \<not> chatCancelled st \<and> truthy (normalizeResponse json)
     \<and> isPendingOrProcessing (getProp (normalizeResponse json) (js ''status''))"
  by (simp add: chatPollTick_def Let_def)

lemma pending_not_terminal: "isPendingOrProcessing status \<Longrightarrow> isTerminal status = Inr False"
  by (auto simp: isPendingOrProcessing_iff isTerminal_def TERMINAL_STATUSES_def
      toLowerCase_def lowerUnit_def js_def)

lemma chatPollTick_asks_only_pending:
  assumes "snd (chatPollTick st res agentStateRes)"
  shows "\<exists>json. res = HttpResponse True (Some json)
           \<and> isPendingOrProcessing (getProp (normalizeResponse json) (js ''status''))
           \<and> isTerminal (getProp (normalizeResponse json) (js ''status'')) = Inr False"
proof (cases res)
  case NetworkError
  then show ?thesis using assms by (simp add: chatPollTick_def)
next
  case (HttpResponse ok body)
  then have ok: "ok" using assms by (cases ok) (simp_all add: chatPollTick_def)
  then obtain json where body: "body = Some json"
    using assms HttpResponse by (cases body) (simp_all add: chatPollTick_def)
  have "isPendingOrProcessing (getProp (normalizeResponse json) (js ''status''))"
    using assms chatPollTick_asks [of st json agentStateRes] by (simp add: HttpResponse ok body)
  then show ?thesis using pending_not_terminal by (auto simp: HttpResponse ok body)
qed

text \<open>
  Claim C1 says that the chat poll asks for the agent's state and reclassifies only once
  the response is more than 3600 seconds old. The tick reads neither the clock nor
  \<^verbatim>\<open>created_at\<close>: whenever it is live, the status is exactly \<^verbatim>\<open>pending\<close> or \<^verbatim>\<open>processing\<close>
  and the agent reports \<^verbatim>\<open>slept\<close>, it marks the tracked message \<^verbatim>\<open>busy_timeout\<close> and
  stops the poll, whatever the age of the response. What the claim says of the status
  holds: a tick asks only for a status that is \<^verbatim>\<open>pending\<close> or \<^verbatim>\<open>processing\<close>, never for a
  terminal one. The second theorem is such a tick for the response of the example, next
  to the timeline builder, which leaves the same response \<^verbatim>\<open>pending\<close> one second after its
  creation because of its test of the age.
\<close>

theorem chatPollTick_reclassifies_at_any_age:
  "(\<not> chatCancelled st \<and> truthy (normalizeResponse json)
    \<and> isPendingOrProcessing (getProp (normalizeResponse json) (js ''status''))
    \<and> agentReportsSlept agentStateRes \<longrightarrow>
    chatPollTick st (HttpResponse True (Some json)) agentStateRes =
      (stopChatPolling
         (st\<lparr>chatMessages :=
               map (markBusyTimeout (currentChatResponseId st) (normalizeResponse json))
                 (chatMessages st)\<rparr>),
       True))
   \<and> (snd (chatPollTick st res agentStateRes) \<longrightarrow>
        (\<exists>body. res = HttpResponse True (Some body)
           \<and> isPendingOrProcessing (getProp (normalizeResponse body) (js ''status''))
           \<and> isTerminal (getProp (normalizeResponse body) (js ''status'')) = Inr False))"
  using chatPollTick_asks_only_pending [of st res agentStateRes]
  by (simp add: chatPollTick_def Let_def)

theorem chatPollTick_reclassifies_fresh_response:
  "chatPollTick chatExample (HttpResponse True (Some (statusBody ''pending''))) sleptAnswer =
     (chatExample
        \<lparr>chatMessages :=
           [chatMessages chatExample ! 0,
            (chatMessages chatExample ! 1)
              \<lparr>msgResponse := statusBody ''pending'', msgStatus := JStr (js ''busy_timeout''),
               msgAgentState := JStr (js ''slept'')\<rparr>],
         currentChatResponseId := JNull, isChatPolling := False,
         chatIntervalActive := False\<rparr>,
      True)
   \<and> finalStatus exampleRuntime (statusBody ''pending'') aSecondLater = JStr (js ''pending'')"
proof -
  have live: "\<not> chatCancelled chatExample" by (simp add: chatExample_def)
  have pend: "isPendingOrProcessing (JStr (js ''pending''))"
    by (simp add: isPendingOrProcessing_def)
  have tick: "chatPollTick chatExample (HttpResponse True (Some (statusBody ''pending''))) sleptAnswer =
     (stopChatPolling
        (chatExample\<lparr>chatMessages :=
              map (markBusyTimeout (currentChatResponseId chatExample) (statusBody ''pending''))
                (chatMessages chatExample)\<rparr>),
      True)"
    using chatPollTick_reclassifies_at_any_age
      [of chatExample "statusBody ''pending''" sleptAnswer]
      live pend sleptAnswer_slept
    by (simp add: statusBody_normal statusBody_status) (simp add: statusBody_def)
  have fresh: "\<not> isStale exampleRuntime (statusBody ''pending'') aSecondLater"
    by (simp add: isStale_def exampleRuntime_def aSecondLater_def statusBody_def getProp_def js_def)
  have history: "finalStatus exampleRuntime (statusBody ''pending'') aSecondLater = JStr (js ''pending'')"
    using fresh by (simp add: finalStatus_def historyAsksAgentState_def statusBody_status)
  have "chatPollTick chatExample (HttpResponse True (Some (statusBody ''pending''))) sleptAnswer =
     (chatExample
        \<lparr>chatMessages :=
           [chatMessages chatExample ! 0,
            (chatMessages chatExample ! 1)
              \<lparr>msgResponse := statusBody ''pending'', msgStatus := JStr (js ''busy_timeout''),
               msgAgentState := JStr (js ''slept'')\<rparr>],
         currentChatResponseId := JNull, isChatPolling := False,
         chatIntervalActive := False\<rparr>,
      True)"
    unfolding tick
    by (simp add: chatExample_def stopChatPolling_def markBusyTimeout_def js_def)
  then show ?thesis using history by simp
qed

lemma lowerUnit_idem: "lowerUnit (lowerUnit c) = lowerUnit c"
  by (simp add: lowerUnit_def)

lemma toLowerCase_idem: "toLowerCase (toLowerCase s) = toLowerCase s"
  by (simp add: toLowerCase_def lowerUnit_idem)

text \<open>
  Claim C2 says that every comparison of a status is case-insensitive. \<^verbatim>\<open>isTerminal\<close> is:
  it gives a string and its lower-cased form the same answer. The test that guards the
  agent-state query, in the chat poll and in the timeline builder, is not: it holds for
  exactly the two strings \<^verbatim>\<open>pending\<close> and \<^verbatim>\<open>processing\<close>. The second theorem shows the two
  branches taken for \<^verbatim>\<open>PENDING\<close> and for its lower-cased form.
\<close>

theorem status_checks_case:
  "isTerminal (JStr s) = isTerminal (JStr (toLowerCase s))
   \<and> (snd (chatPollTick st (HttpResponse True (Some json)) agentStateRes) \<longleftrightarrow>
        \<not> chatCancelled st \<and> truthy (normalizeResponse json)
        \<and> (getProp (normalizeResponse json) (js ''status'') = JStr (js ''pending'')
           \<or> getProp (normalizeResponse json) (js ''status'') = JStr (js ''processing'')))
   \<and> (historyAsksAgentState rt resp m \<longleftrightarrow>
        (getProp resp (js ''status'') = JStr (js ''pending'')
         \<or> getProp resp (js ''status'') = JStr (js ''processing''))
        \<and> isStale rt resp m)"
proof -
  have "isTerminal (JStr s) = isTerminal (JStr (toLowerCase s))"
    by (simp only: isTerminal_string toLowerCase_idem)
  then show ?thesis
    by (simp add: chatPollTick_asks historyAsksAgentState_def isPendingOrProcessing_iff)
qed

lemma stale_example: "isStale exampleRuntime (statusBody s) twoHoursLater"
  by (simp add: isStale_def exampleRuntime_def twoHoursLater_def statusBody_def getProp_def js_def)

lemma upper_pending:
  "toLowerCase (js ''PENDING'') = js ''pending''" "js ''PENDING'' \<noteq> js ''pending''"
  "js ''PENDING'' \<noteq> js ''processing''"
  by (simp_all add: toLowerCase_def lowerUnit_def js_def)

theorem status_checks_case_witness:
  "toLowerCase (js ''PENDING'') = js ''pending''
   \<and> \<not> snd (chatPollTick chatExample (HttpResponse True (Some (statusBody ''PENDING''))) sleptAnswer)
   \<and> snd (chatPollTick chatExample (HttpResponse True (Some (statusBody ''pending''))) sleptAnswer)
   \<and> \<not> historyAsksAgentState exampleRuntime (statusBody ''PENDING'') twoHoursLater
   \<and> historyAsksAgentState exampleRuntime (statusBody ''pending'') twoHoursLater
   \<and> finalStatus exampleRuntime (statusBody ''PENDING'') twoHoursLater = JStr (js ''PENDING'')
   \<and> finalStatus exampleRuntime (statusBody ''pending'') twoHoursLater = JStr (js ''busy_timeout'')"
proof -
  have live: "\<not> chatCancelled chatExample" by (simp add: chatExample_def)
  have t: "truthy (statusBody s)" for s by (simp add: statusBody_def)
  have a1: "\<not> snd (chatPollTick chatExample (HttpResponse True (Some (statusBody ''PENDING''))) sleptAnswer)"
    using status_checks_case [of _ chatExample "statusBody ''PENDING''" sleptAnswer] upper_pending
    by (simp add: statusBody_normal statusBody_status)
  have a2: "snd (chatPollTick chatExample (HttpResponse True (Some (statusBody ''pending''))) sleptAnswer)"
    using status_checks_case [of _ chatExample "statusBody ''pending''" sleptAnswer] live t
    by (simp add: statusBody_normal statusBody_status)
  have h1: "\<not> historyAsksAgentState exampleRuntime (statusBody ''PENDING'') twoHoursLater"
    using status_checks_case [of _ _ _ _ exampleRuntime "statusBody ''PENDING''" twoHoursLater]
      upper_pending
    by (simp add: statusBody_status)
  have h2: "historyAsksAgentState exampleRuntime (statusBody ''pending'') twoHoursLater"
    using status_checks_case [of _ _ _ _ exampleRuntime "statusBody ''pending''" twoHoursLater]
      stale_example
    by (simp add: statusBody_status)
  have slept: "agentReportsSlept (stateAnswer twoHoursLater)"
    by (simp add: twoHoursLater_def sleptAnswer_slept)
  have f1: "finalStatus exampleRuntime (statusBody ''PENDING'') twoHoursLater = JStr (js ''PENDING'')"
    using h1 by (simp add: finalStatus_def statusBody_status)
  have f2: "finalStatus exampleRuntime (statusBody ''pending'') twoHoursLater = JStr (js ''busy_timeout'')"
    using h2 slept by (simp add: finalStatus_def)
  show ?thesis using upper_pending(1) a1 a2 h1 h2 f1 f2 by blast
qed

section \<open>Properties of the chat timeline builder\<close>

lemma jserror_one: "(err :: jserror) = TypeError"
  by (cases err) simp

lemma getProp_non_object:
  "\<not> truthy v \<Longrightarrow> getProp v k = JUndefined"
  by (cases v) (simp_all add: getProp_def)

lemma wellFormed_filterInput:
  assumes "inputWellFormed r"
  shows "filterInput r = JStr (userContentOf r)"
proof (cases "getProp r (js ''input_content'')")
  case (JArr items)
  show ?thesis
  proof (cases items)
    case Nil
    then show ?thesis
      using JArr by (simp add: filterInput_def userContentOf_def firstItem_def getProp_def orElse_def)
  next
    case (Cons firstContent rest)
    show ?thesis
    proof (cases "truthy firstContent")
      case False
      then show ?thesis
        using JArr Cons
        by (simp add: filterInput_def userContentOf_def firstItem_def getProp_non_object orElse_def)
    next
      case True
      then show ?thesis
        using JArr Cons assms
        by (cases "getProp firstContent (js ''content'')")
           (simp_all add: filterInput_def userContentOf_def firstItem_def orElse_def inputWellFormed_def)
    qed
  qed
qed (use assms in \<open>simp_all add: inputWellFormed_def filterInput_def userContentOf_def
      firstItem_def orElse_def getProp_def\<close>)

lemma keepResponse_wellFormed:
  "inputWellFormed r \<Longrightarrow> keepResponse rt cur r = Inr (keeps cur r)"
  by (auto simp: keepResponse_def keeps_def wellFormed_filterInput looksLikeInitialPrompt_def)

lemma filterResponses_wellFormed:
  "\<forall>r \<in> set rs. inputWellFormed r \<Longrightarrow>
     filterResponses rt cur rs = Inr (filter (keeps cur) rs)"
  by (induction rs) (simp_all add: keepResponse_wellFormed)

lemma trim_Nil: "trim [] = []"
  by (simp add: trim_def)

lemma normalizeResponse_keeps_id:
  assumes "truthy (getProp resp (js ''id''))"
  shows "getProp (normalizeResponse resp) (js ''id'') = getProp resp (js ''id'')"
proof -
  obtain fs where fs: "resp = JObj fs"
    using assms by (cases resp) (simp_all add: getProp_def)
  have "js ''id'' \<noteq> js ''segments''" "js ''id'' \<noteq> js ''output_content''"
    by (simp_all add: js_def)
  then show ?thesis
    by (simp add: fs normalizeResponse_def getProp_def update_conv' Let_def)
qed

lemma historyLoop_shown:
  "shown resp \<Longrightarrow>
     historyLoop rt world i (resp # rest) =
       (case toString (getProp resp (js ''id'')) of
          Inl err \<Rightarrow> Inl err
        | Inr idText \<Rightarrow>
            (case newDate rt (getProp resp (js ''created_at'')) of
               Inl err \<Rightarrow> Inl err
             | Inr created \<Rightarrow>
                 (case historyLoop rt world (Suc i) rest of
                    Inl err \<Rightarrow> Inl err
                  | Inr later \<Rightarrow>
                      Inr (userMessage idText resp (world i)
                             # agentMessage rt resp (world i) # later))))"
  using trim_Nil by (auto simp: shown_def)

lemma historyLoop_skipped:
  "\<not> shown resp \<Longrightarrow> historyLoop rt world i (resp # rest) = historyLoop rt world (Suc i) rest"
  by (auto simp: shown_def)

lemma historyLoop_pairs:
  "historyLoop rt world i xs = Inr msgs \<Longrightarrow>
     map (\<lambda>m. (msgType m, msgId m)) msgs = concat (map messagePair (filter shown xs))
     \<and> map msgResponse (filter (\<lambda>m. msgType m = Agent) msgs)
         = map normalizeResponse (filter shown xs)
     \<and> historyShaped msgs"
proof (induction xs arbitrary: i msgs)
  case Nil
  then show ?case by auto
next
  case (Cons resp rest)
  show ?case
  proof (cases "shown resp")
    case False
    have "historyLoop rt world (Suc i) rest = Inr msgs"
      using Cons.prems [unfolded historyLoop_skipped [OF False]] .
    then show ?thesis using Cons.IH False by simp
  next
    case True
    obtain t created later where
      t: "toString (getProp resp (js ''id'')) = Inr t" and
      later: "historyLoop rt world (Suc i) rest = Inr later" and
      msgs: "msgs = userMessage t resp (world i) # agentMessage rt resp (world i) # later"
      using Cons.prems unfolding historyLoop_shown [OF True]
      by (auto split: sum.splits)
    have ih: "map (\<lambda>m. (msgType m, msgId m)) later = concat (map messagePair (filter shown rest))
       \<and> map msgResponse (filter (\<lambda>m. msgType m = Agent) later)
           = map normalizeResponse (filter shown rest)
       \<and> historyShaped later"
      using later by (rule Cons.IH)
    have id: "getProp (normalizeResponse resp) (js ''id'') = getProp resp (js ''id'')"
      using True by (intro normalizeResponse_keeps_id) (simp add: shown_def)
    have pair: "messagePair resp
        = [(User, JStr (js ''user-'' @ t)), (Agent, getProp resp (js ''id''))]"
      using t by (simp add: messagePair_def idTextOf_def)
    show ?thesis
      using True ih t id
      by (simp add: msgs pair userMessage_def agentMessage_def)
  qed
qed

lemma historyLoop_returns:
  "\<forall>r \<in> set xs. convertible (getProp r (js ''id'')) \<and> convertible (getProp r (js ''created_at''))
     \<Longrightarrow> \<exists>msgs. historyLoop rt world i xs = Inr msgs"
proof (induction xs arbitrary: i)
  case Nil
  then show ?case by simp
next
  case (Cons resp rest)
  then obtain later where later: "historyLoop rt world (Suc i) rest = Inr later" by auto
  show ?case
  proof (cases "shown resp")
    case False
    show ?thesis unfolding historyLoop_skipped [OF False] using later by simp
  next
    case True
    have "convertible (getProp resp (js ''id''))" "convertible (getProp resp (js ''created_at''))"
      using Cons.prems by simp_all
    then show ?thesis
      unfolding historyLoop_shown [OF True] using later
      by (auto simp: convertible_def newDate_def split: sum.splits)
  qed
qed

lemma historyLoop_throws:
  "r \<in> set xs \<Longrightarrow> shown r \<Longrightarrow>
     \<not> (convertible (getProp r (js ''id'')) \<and> convertible (getProp r (js ''created_at''))) \<Longrightarrow>
     historyLoop rt world i xs = Inl TypeError"
proof (induction xs arbitrary: i)
  case Nil
  then show ?case by simp
next
  case (Cons resp rest)
  show ?case
  proof (cases "resp = r")
    case True
    have "historyLoop rt world i (r # rest) = Inl TypeError"
      unfolding historyLoop_shown [OF Cons.prems(2)] using Cons.prems(3)
      by (auto simp: convertible_def newDate_def jserror_one split: sum.splits)
    then show ?thesis using True by simp
  next
    case False
    then have rest: "historyLoop rt world (Suc i) rest = Inl TypeError"
      using Cons.IH Cons.prems by simp
    show ?thesis
    proof (cases "shown resp")
      case True
      show ?thesis
        unfolding historyLoop_shown [OF True] using rest
        by (auto simp: jserror_one split: sum.splits)
    next
      case False
      show ?thesis unfolding historyLoop_skipped [OF False] using rest .
    qed
  qed
qed

lemma createdDate_convertible:
  assumes "convertible (getProp r (js ''created_at''))"
  shows "createdDate rt r = Inr (createdKey rt r)"
proof (cases "truthy (getProp r (js ''created_at''))")
  case True
  then show ?thesis
    using assms
    by (simp add: createdDate_def createdKey_def newDate_def convertible_def orElse_def
        split: sum.splits)
next
  case False
  then show ?thesis
    by (simp add: createdDate_def createdKey_def newDate_def orElse_def)
qed

lemma set_insertBy: "insertBy cmp x ys = Inr zs \<Longrightarrow> set zs = insert x (set ys)"
proof (induction ys arbitrary: zs)
  case Nil
  then show ?case by auto
next
  case (Cons y ys)
  show ?case
  proof (cases "cmp x y")
    case (Inl err)
    then show ?thesis using Cons.prems by simp
  next
    case (Inr order)
    show ?thesis
    proof (cases "order \<le> 0")
      case True
      then show ?thesis using Cons.prems Inr by auto
    next
      case False
      show ?thesis
      proof (cases "insertBy cmp x ys")
        case (Inl err)
        then show ?thesis using Cons.prems \<open>cmp x y = Inr order\<close> False by simp
      next
        case inner: (Inr zs')
        then have "set zs' = insert x (set ys)" by (rule Cons.IH)
        moreover have "zs = y # zs'"
          using Cons.prems \<open>cmp x y = Inr order\<close> False inner by simp
        ultimately show ?thesis by auto
      qed
    qed
  qed
qed

lemma set_sortBy: "sortBy cmp xs = Inr ys \<Longrightarrow> set ys = set xs"
proof (induction xs arbitrary: ys)
  case Nil
  then show ?case by simp
next
  case (Cons x xs)
  show ?case
  proof (cases "sortBy cmp xs")
    case (Inl err)
    then show ?thesis using Cons.prems by simp
  next
    case (Inr sorted_rest)
    then have "set sorted_rest = set xs" by (rule Cons.IH)
    moreover have "insertBy cmp x sorted_rest = Inr ys" using Cons.prems Inr by simp
    ultimately show ?thesis using set_insertBy [of cmp x sorted_rest ys] by simp
  qed
qed

lemma compareCreated_returns:
  assumes "createdDate rt x = Inr (createdKey rt x)" "createdDate rt y = Inr (createdKey rt y)"
  shows "compareCreated rt x y =
     Inr (case (createdKey rt x, createdKey rt y) of
            (Some timeA, Some timeB) \<Rightarrow> timeA - timeB
          | _ \<Rightarrow> 0)"
  using assms by (simp add: compareCreated_def)

lemma insertBy_returns:
  assumes "createdDate rt x = Inr (createdKey rt x)"
    "\<forall>y \<in> set ys. createdDate rt y = Inr (createdKey rt y)"
  shows "\<exists>zs. insertBy (compareCreated rt) x ys = Inr zs"
  using assms
proof (induction ys)
  case Nil
  then show ?case by simp
next
  case (Cons y ys)
  then obtain zs where zs: "insertBy (compareCreated rt) x ys = Inr zs" by auto
  have "createdDate rt y = Inr (createdKey rt y)" using Cons.prems by simp
  then show ?case
    using compareCreated_returns [OF Cons.prems(1), of y] zs by simp
qed

lemma sortBy_returns:
  assumes "\<forall>x \<in> set xs. createdDate rt x = Inr (createdKey rt x)"
  shows "\<exists>ys. sortBy (compareCreated rt) xs = Inr ys"
  using assms
proof (induction xs)
  case Nil
  then show ?case by simp
next
  case (Cons x xs)
  then obtain ys where ys: "sortBy (compareCreated rt) xs = Inr ys" by auto
  then have "set ys = set xs" by (rule set_sortBy)
  then have "\<exists>zs. insertBy (compareCreated rt) x ys = Inr zs"
    using Cons.prems by (intro insertBy_returns) simp_all
  then show ?case using ys by simp
qed

lemma insertBy_insort:
  assumes "createdDate rt x = Inr (createdKey rt x)" "createdKey rt x \<noteq> None"
    "\<forall>y \<in> set ys. createdDate rt y = Inr (createdKey rt y) \<and> createdKey rt y \<noteq> None"
  shows "insertBy (compareCreated rt) x ys = Inr (insort_key (\<lambda>r. the (createdKey rt r)) x ys)"
  using assms
proof (induction ys)
  case Nil
  then show ?case by simp
next
  case (Cons y ys)
  have y: "createdDate rt y = Inr (createdKey rt y)" "createdKey rt y \<noteq> None"
    using Cons.prems by simp_all
  have ih: "insertBy (compareCreated rt) x ys
      = Inr (insort_key (\<lambda>r. the (createdKey rt r)) x ys)"
    using Cons by simp
  obtain kx ky where k: "createdKey rt x = Some kx" "createdKey rt y = Some ky"
    using Cons.prems(2) y(2) by auto
  show ?case
    using compareCreated_returns [OF Cons.prems(1) y(1)] ih k by simp
qed

lemma sortBy_sort_key:
  "\<forall>x \<in> set xs. createdDate rt x = Inr (createdKey rt x) \<and> createdKey rt x \<noteq> None \<Longrightarrow>
     sortBy (compareCreated rt) xs = Inr (sort_key (\<lambda>r. the (createdKey rt r)) xs)"
proof (induction xs)
  case Nil
  then show ?case by simp
next
  case (Cons x xs)
  then have "sortBy (compareCreated rt) xs = Inr (sort_key (\<lambda>r. the (createdKey rt r)) xs)"
    by simp
  then show ?case
    using Cons.prems insertBy_insort [of rt x "sort_key (\<lambda>r. the (createdKey rt r)) xs"]
    by simp
qed

lemma spec_timeline_stable:
  "filter (\<lambda>r. the (createdKey rt r) = k) (spec_timeline rt cur rs)
     = filter (\<lambda>r. the (createdKey rt r) = k \<and> \<not> spec_excluded cur r) rs"
  unfolding spec_timeline_def by (simp add: sort_key_stable conj_commute)

lemma shown_keeps: "(keeps cur r \<and> shown r) = (\<not> spec_excluded cur r)"
  by (auto simp: shown_def keeps_def spec_excluded_def claim_excluded_def)

lemma loadChatHistory_wellFormed:
  assumes "\<forall>r \<in> set rs. inputWellFormed r"
  shows "loadChatHistory rt cur (HttpResponse True (Some (JArr rs))) world
      = (case sortBy (compareCreated rt) (filter (keeps cur) rs) of
           Inl err \<Rightarrow> None
         | Inr chatResponses \<Rightarrow>
             (case historyLoop rt world 0 chatResponses of
                Inl err \<Rightarrow> None
              | Inr messages \<Rightarrow> Some messages))"
  using filterResponses_wellFormed [OF assms] by (simp add: loadChatHistory_def)

lemma loadChatHistory_sets_timeline:
  assumes "\<forall>r \<in> set rs. responseWellFormed r"
  shows "\<exists>kept msgs. sortBy (compareCreated rt) (filter (keeps cur) rs) = Inr kept
      \<and> set kept = set (filter (keeps cur) rs)
      \<and> historyLoop rt world 0 kept = Inr msgs
      \<and> loadChatHistory rt cur (HttpResponse True (Some (JArr rs))) world = Some msgs"
proof -
  have wf: "\<forall>r \<in> set rs. inputWellFormed r" using assms by (simp add: responseWellFormed_def)
  have "\<forall>r \<in> set (filter (keeps cur) rs). createdDate rt r = Inr (createdKey rt r)"
    using assms by (simp add: responseWellFormed_def createdDate_convertible)
  then obtain kept where kept: "sortBy (compareCreated rt) (filter (keeps cur) rs) = Inr kept"
    using sortBy_returns by blast
  then have members: "set kept = set (filter (keeps cur) rs)" by (rule set_sortBy)
  then have "\<forall>r \<in> set kept. convertible (getProp r (js ''id''))
      \<and> convertible (getProp r (js ''created_at''))"
    using assms by (simp add: responseWellFormed_def)
  then obtain msgs where msgs: "historyLoop rt world 0 kept = Inr msgs"
    using historyLoop_returns by blast
  have "loadChatHistory rt cur (HttpResponse True (Some (JArr rs))) world = Some msgs"
    by (simp add: loadChatHistory_wellFormed [OF wf] kept msgs)
  then show ?thesis using kept members msgs by blast
qed

lemma loadChatHistory_throws:
  assumes "\<forall>r \<in> set rs. inputWellFormed r" "r \<in> set rs" "\<not> spec_excluded cur r"
    "\<not> (convertible (getProp r (js ''id'')) \<and> convertible (getProp r (js ''created_at'')))"
  shows "loadChatHistory rt cur (HttpResponse True (Some (JArr rs))) world = None"
proof (cases "sortBy (compareCreated rt) (filter (keeps cur) rs)")
  case (Inl err)
  then show ?thesis by (simp add: loadChatHistory_wellFormed [OF assms(1)])
next
  case (Inr kept)
  then have "set kept = set (filter (keeps cur) rs)" by (rule set_sortBy)
  moreover have "keeps cur r" "shown r" using assms(3) shown_keeps by blast+
  ultimately have "r \<in> set kept" using assms(2) by simp
  then have "historyLoop rt world 0 kept = Inl TypeError"
    using \<open>shown r\<close> assms(4) by (rule historyLoop_throws)
  then show ?thesis by (simp add: loadChatHistory_wellFormed [OF assms(1)] Inr)
qed

text \<open>
  Claim C7, as amended. Take a fetched list in which every response is well formed: its
  input is absent or an array whose first item has a string or falsy content, and its
  id and creation date can be converted to a string. The builder then sets a timeline,
  and a response is excluded from it if and only if it is missing or has no id, or its
  id is the current response id, or its input content has more than 500 units, or
  contains both \<^verbatim>\<open>Clone\<close> and \<^verbatim>\<open>**Step 1:\<close>, or is empty or blank; each response that
  remains gives a user message and an agent message, which carries the normalized
  response. When moreover every creation date can be read, the responses that remain
  appear oldest first, those of one date in the order fetched, each as its user message
  followed by its agent message. When the inputs are well formed and a response that
  is not excluded has an id or a creation date that cannot be converted to a string,
  the builder throws and sets no timeline.
\<close>

theorem loadChatHistory_spec:
  "((\<forall>r \<in> set rs. responseWellFormed r) \<longrightarrow>
      (\<exists>msgs. loadChatHistory rt cur (HttpResponse True (Some (JArr rs))) world = Some msgs
         \<and> set (map (\<lambda>m. (msgType m, msgId m)) msgs)
             = (\<Union>r \<in> {r \<in> set rs. \<not> spec_excluded cur r}. set (messagePair r))
         \<and> set (map msgResponse (filter (\<lambda>m. msgType m = Agent) msgs))
             = normalizeResponse ` {r \<in> set rs. \<not> spec_excluded cur r}))
   \<and> ((\<forall>r \<in> set rs. responseWellFormed r) \<and> (\<forall>r \<in> set rs. createdKey rt r \<noteq> None) \<longrightarrow>
      (\<exists>msgs. loadChatHistory rt cur (HttpResponse True (Some (JArr rs))) world = Some msgs
         \<and> map (\<lambda>m. (msgType m, msgId m)) msgs
             = concat (map messagePair (spec_timeline rt cur rs))
         \<and> map msgResponse (filter (\<lambda>m. msgType m = Agent) msgs)
             = map normalizeResponse (spec_timeline rt cur rs)
         \<and> set (spec_timeline rt cur rs) = {r \<in> set rs. \<not> spec_excluded cur r}
         \<and> sorted (map (\<lambda>r. the (createdKey rt r)) (spec_timeline rt cur rs))
         \<and> filter (\<lambda>r. the (createdKey rt r) = k) (spec_timeline rt cur rs)
             = filter (\<lambda>r. the (createdKey rt r) = k \<and> \<not> spec_excluded cur r) rs))
   \<and> ((\<forall>r \<in> set rs. inputWellFormed r)
       \<and> (\<exists>r \<in> set rs. \<not> spec_excluded cur r
             \<and> \<not> (convertible (getProp r (js ''id''))
                   \<and> convertible (getProp r (js ''created_at'')))) \<longrightarrow>
       loadChatHistory rt cur (HttpResponse True (Some (JArr rs))) world = None)"
proof (intro conjI impI)
  assume wf: "\<forall>r \<in> set rs. responseWellFormed r"
  obtain kept msgs where
    members: "set kept = set (filter (keeps cur) rs)" and
    loop: "historyLoop rt world 0 kept = Inr msgs" and
    load: "loadChatHistory rt cur (HttpResponse True (Some (JArr rs))) world = Some msgs"
    using loadChatHistory_sets_timeline [OF wf] by blast
  have kept_set: "{r \<in> set kept. shown r} = {r \<in> set rs. \<not> spec_excluded cur r}"
    using shown_keeps members by auto
  have "set (map (\<lambda>m. (msgType m, msgId m)) msgs)
      = (\<Union>r \<in> {r \<in> set kept. shown r}. set (messagePair r))"
    using historyLoop_pairs [OF loop] by auto
  then have pairs: "set (map (\<lambda>m. (msgType m, msgId m)) msgs)
      = (\<Union>r \<in> {r \<in> set rs. \<not> spec_excluded cur r}. set (messagePair r))"
    by (simp only: kept_set)
  have "set (map msgResponse (filter (\<lambda>m. msgType m = Agent) msgs))
      = normalizeResponse ` {r \<in> set kept. shown r}"
    using historyLoop_pairs [OF loop] by auto
  then have resps: "set (map msgResponse (filter (\<lambda>m. msgType m = Agent) msgs))
      = normalizeResponse ` {r \<in> set rs. \<not> spec_excluded cur r}"
    by (simp only: kept_set)
  show "\<exists>msgs. loadChatHistory rt cur (HttpResponse True (Some (JArr rs))) world = Some msgs
         \<and> set (map (\<lambda>m. (msgType m, msgId m)) msgs)
             = (\<Union>r \<in> {r \<in> set rs. \<not> spec_excluded cur r}. set (messagePair r))
         \<and> set (map msgResponse (filter (\<lambda>m. msgType m = Agent) msgs))
             = normalizeResponse ` {r \<in> set rs. \<not> spec_excluded cur r}"
    using load pairs resps by blast
next
  let ?key = "\<lambda>r. the (createdKey rt r)"
  let ?kept = "sort_key ?key (filter (keeps cur) rs)"
  assume both: "(\<forall>r \<in> set rs. responseWellFormed r) \<and> (\<forall>r \<in> set rs. createdKey rt r \<noteq> None)"
  then have wf: "\<forall>r \<in> set rs. responseWellFormed r" by simp
  have "\<forall>r \<in> set (filter (keeps cur) rs).
      createdDate rt r = Inr (createdKey rt r) \<and> createdKey rt r \<noteq> None"
    using both by (simp add: responseWellFormed_def createdDate_convertible)
  then have srt: "sortBy (compareCreated rt) (filter (keeps cur) rs) = Inr ?kept"
    by (rule sortBy_sort_key)
  obtain msgs where
    loop: "historyLoop rt world 0 ?kept = Inr msgs" and
    load: "loadChatHistory rt cur (HttpResponse True (Some (JArr rs))) world = Some msgs"
    using loadChatHistory_sets_timeline [OF wf, of rt cur world] by (auto simp: srt)
  have "filter shown ?kept = sort_key ?key (filter shown (filter (keeps cur) rs))"
    by (rule filter_sort)
  also have "\<dots> = spec_timeline rt cur rs"
    by (simp add: spec_timeline_def shown_keeps)
  finally have tl: "filter shown ?kept = spec_timeline rt cur rs" .
  have pairs: "map (\<lambda>m. (msgType m, msgId m)) msgs
      = concat (map messagePair (spec_timeline rt cur rs))"
    using historyLoop_pairs [OF loop] by (simp add: tl)
  have resps: "map msgResponse (filter (\<lambda>m. msgType m = Agent) msgs)
      = map normalizeResponse (spec_timeline rt cur rs)"
    using historyLoop_pairs [OF loop] by (simp add: tl)
  have members: "set (spec_timeline rt cur rs) = {r \<in> set rs. \<not> spec_excluded cur r}"
    by (auto simp: spec_timeline_def)
  have ordered: "sorted (map ?key (spec_timeline rt cur rs))"
    by (simp add: spec_timeline_def)
  have stable: "filter (\<lambda>r. ?key r = k) (spec_timeline rt cur rs)
      = filter (\<lambda>r. ?key r = k \<and> \<not> spec_excluded cur r) rs"
    by (rule spec_timeline_stable)
  show "\<exists>msgs. loadChatHistory rt cur (HttpResponse True (Some (JArr rs))) world = Some msgs
         \<and> map (\<lambda>m. (msgType m, msgId m)) msgs
             = concat (map messagePair (spec_timeline rt cur rs))
         \<and> map msgResponse (filter (\<lambda>m. msgType m = Agent) msgs)
             = map normalizeResponse (spec_timeline rt cur rs)
         \<and> set (spec_timeline rt cur rs) = {r \<in> set rs. \<not> spec_excluded cur r}
         \<and> sorted (map (\<lambda>r. the (createdKey rt r)) (spec_timeline rt cur rs))
         \<and> filter (\<lambda>r. the (createdKey rt r) = k) (spec_timeline rt cur rs)
             = filter (\<lambda>r. the (createdKey rt r) = k \<and> \<not> spec_excluded cur r) rs"
    using load pairs resps members ordered stable by blast
next
  assume bad: "(\<forall>r \<in> set rs. inputWellFormed r)
       \<and> (\<exists>r \<in> set rs. \<not> spec_excluded cur r
             \<and> \<not> (convertible (getProp r (js ''id''))
                   \<and> convertible (getProp r (js ''created_at''))))"
  then show "loadChatHistory rt cur (HttpResponse True (Some (JArr rs))) world = None"
    using loadChatHistory_throws [of rs _ cur rt world] by blast
qed

lemma getProp_chatResponse:
  "getProp (chatResponse i text t) (js ''id'') = JStr (js i)"
  "getProp (chatResponse i text t) (js ''created_at'') = JStr (js t)"
  "userContentOf (chatResponse i text t) = js text"
  "inputWellFormed (chatResponse i text t)"
  "truthy (chatResponse i text t)"
  by (simp_all add: chatResponse_def getProp_def userContentOf_def inputWellFormed_def js_def)

lemma chatResponse_wellFormed: "responseWellFormed (chatResponse i text t)"
  by (simp add: responseWellFormed_def getProp_chatResponse convertible_def)

lemma fetched_wellFormed: "\<forall>r \<in> set fetchedResponses. responseWellFormed r"
  by (simp add: fetchedResponses_def chatResponse_wellFormed)

lemma fetched_dates: "\<forall>r \<in> set fetchedResponses. createdKey exampleRuntime r \<noteq> None"
  by (simp add: fetchedResponses_def createdKey_def getProp_chatResponse orElse_def)
     (simp add: exampleRuntime_def js_def)

lemma fetched_excluded:
  "\<not> spec_excluded (JStr (js ''r0''))
       (chatResponse ''r2'' ''and the second question'' ''2026-11-02T10:00:01.000Z'')"
  "spec_excluded (JStr (js ''r0''))
       (chatResponse ''r3'' ''Clone the repo. **Step 1: detect tests'' ''2026-11-02T09:00:00.000Z'')"
  "spec_excluded (JStr (js ''r0'')) (chatResponse ''r4'' ''   '' ''2026-11-02T09:00:00.000Z'')"
  "\<not> spec_excluded (JStr (js ''r0''))
       (chatResponse ''r1'' ''a first question'' ''2026-11-02T09:00:00.000Z'')"
  "spec_excluded (JStr (js ''r0''))
       (chatResponse ''r0'' ''the first request'' ''2026-11-02T09:00:00.000Z'')"
  by (simp_all add: spec_excluded_def claim_excluded_def getProp_chatResponse)
     (simp_all add: js_def trim_def isWhite_def)

lemma fetched_excluded_long:
  "spec_excluded (JStr (js ''r0''))
       (chatResponse ''r5'' (replicate 501 CHR ''x'') ''2026-11-02T09:00:00.000Z'')"
  by (simp add: spec_excluded_def claim_excluded_def getProp_chatResponse) (simp add: js_def)

lemma fetched_keys:
  "the (createdKey exampleRuntime
      (chatResponse ''r2'' ''and the second question'' ''2026-11-02T10:00:01.000Z'')) = 1793613601000"
  "the (createdKey exampleRuntime
      (chatResponse ''r1'' ''a first question'' ''2026-11-02T09:00:00.000Z'')) = 1793610000000"
  by (simp_all add: createdKey_def getProp_chatResponse orElse_def)
     (simp_all add: exampleRuntime_def js_def)

lemma fetched_timeline:
  "spec_timeline exampleRuntime (JStr (js ''r0'')) fetchedResponses =
     [chatResponse ''r1'' ''a first question'' ''2026-11-02T09:00:00.000Z'',
      chatResponse ''r2'' ''and the second question'' ''2026-11-02T10:00:01.000Z'']"
  by (simp add: spec_timeline_def fetchedResponses_def fetched_excluded fetched_excluded_long
      fetched_keys)

theorem loadChatHistory_spec_witness:
  "map (\<lambda>m. (msgType m, msgId m))
     (the (loadChatHistory exampleRuntime (JStr (js ''r0''))
            (HttpResponse True (Some (JArr fetchedResponses))) (\<lambda>i. twoHoursLater)))
   = [(User, JStr (js ''user-r1'')), (Agent, JStr (js ''r1'')),
      (User, JStr (js ''user-r2'')), (Agent, JStr (js ''r2''))]
   \<and> loadChatHistory exampleRuntime (JStr (js ''r0''))
        (HttpResponse True (Some (JArr [unconvertibleIdResponse]))) (\<lambda>i. twoHoursLater) = None"
proof -
  obtain msgs where
    "loadChatHistory exampleRuntime (JStr (js ''r0''))
       (HttpResponse True (Some (JArr fetchedResponses))) (\<lambda>i. twoHoursLater) = Some msgs"
    "map (\<lambda>m. (msgType m, msgId m)) msgs
       = concat (map messagePair (spec_timeline exampleRuntime (JStr (js ''r0'')) fetchedResponses))"
    using loadChatHistory_spec [of fetchedResponses exampleRuntime "JStr (js ''r0'')" "\<lambda>i. twoHoursLater"]
      fetched_wellFormed fetched_dates by blast
  moreover have "concat (map messagePair
        (spec_timeline exampleRuntime (JStr (js ''r0'')) fetchedResponses))
      = [(User, JStr (js ''user-r1'')), (Agent, JStr (js ''r1'')),
         (User, JStr (js ''user-r2'')), (Agent, JStr (js ''r2''))]"
    unfolding fetched_timeline
    by (simp add: messagePair_def idTextOf_def getProp_chatResponse) (simp add: js_def)
  moreover have "loadChatHistory exampleRuntime (JStr (js ''r0''))
        (HttpResponse True (Some (JArr [unconvertibleIdResponse]))) (\<lambda>i. twoHoursLater) = None"
  proof -
    have c: "userContentOf unconvertibleIdResponse = js ''hi''"
      "getProp unconvertibleIdResponse (js ''id'') = unconvertible"
      "inputWellFormed unconvertibleIdResponse"
      "truthy unconvertibleIdResponse" "truthy unconvertible"
      "\<not> strictEq unconvertible (JStr (js ''r0''))"
      by (simp_all add: unconvertibleIdResponse_def unconvertible_def userContentOf_def
          inputWellFormed_def getProp_def js_def)
    have "\<not> spec_excluded (JStr (js ''r0'')) unconvertibleIdResponse"
      by (simp add: spec_excluded_def claim_excluded_def c)
         (simp add: js_def trim_def isWhite_def)
    moreover have "toString unconvertible = Inl TypeError"
      by (simp add: unconvertible_def js_def)
    then have "\<not> convertible (getProp unconvertibleIdResponse (js ''id''))"
      by (simp add: c convertible_def)
    ultimately show ?thesis
      using loadChatHistory_spec [of "[unconvertibleIdResponse]" exampleRuntime "JStr (js ''r0'')"
          "\<lambda>i. twoHoursLater"] c(3)
      by simp
  qed
  ultimately show ?thesis by simp
qed

text \<open>
  The claim as first stated gives four reasons and no other for leaving a response out.
  A response without an id has none of the four, and the guard \<^verbatim>\<open>!r || !r.id\<close> of the
  filter leaves it out: the timeline is empty. A response whose id is the JSON value
  \<^verbatim>\<open>{"toString": 1}\<close> has none of the four either, and the builder throws at the id of
  its user message: no timeline is set.
\<close>

theorem loadChatHistory_counterexample:
  "\<not> claim_excluded (JStr (js ''r0'')) noIdResponse
   \<and> loadChatHistory exampleRuntime (JStr (js ''r0''))
        (HttpResponse True (Some (JArr [noIdResponse]))) (\<lambda>i. twoHoursLater) = Some []
   \<and> \<not> claim_excluded (JStr (js ''r0'')) unconvertibleIdResponse
   \<and> loadChatHistory exampleRuntime (JStr (js ''r0''))
        (HttpResponse True (Some (JArr [unconvertibleIdResponse]))) (\<lambda>i. twoHoursLater) = None"
proof -
  have c: "userContentOf noIdResponse = js ''hi''" "getProp noIdResponse (js ''id'') = JUndefined"
    by (simp_all add: noIdResponse_def userContentOf_def getProp_def js_def)
  have d: "userContentOf unconvertibleIdResponse = js ''hi''"
    "getProp unconvertibleIdResponse (js ''id'') = unconvertible"
    "filterInput unconvertibleIdResponse = JStr (js ''hi'')"
    "truthy unconvertibleIdResponse" "truthy unconvertible"
    "\<not> strictEq unconvertible (JStr (js ''r0''))"
    "toString unconvertible = Inl TypeError"
    by (simp_all add: unconvertibleIdResponse_def unconvertible_def userContentOf_def
        filterInput_def firstItem_def orElse_def getProp_def js_def)
  have "\<not> claim_excluded (JStr (js ''r0'')) noIdResponse"
    by (simp add: claim_excluded_def c) (simp add: js_def trim_def isWhite_def)
  moreover have "loadChatHistory exampleRuntime (JStr (js ''r0''))
        (HttpResponse True (Some (JArr [noIdResponse]))) (\<lambda>i. twoHoursLater) = Some []"
    by (simp add: loadChatHistory_def keepResponse_def c)
  moreover have "\<not> claim_excluded (JStr (js ''r0'')) unconvertibleIdResponse"
    by (simp add: claim_excluded_def d) (simp add: js_def trim_def isWhite_def)
  moreover have "keepResponse exampleRuntime (JStr (js ''r0'')) unconvertibleIdResponse = Inr True"
    by (simp add: keepResponse_def looksLikeInitialPrompt_def d) (simp add: js_def)
  then have "loadChatHistory exampleRuntime (JStr (js ''r0''))
        (HttpResponse True (Some (JArr [unconvertibleIdResponse]))) (\<lambda>i. twoHoursLater) = None"
    by (simp add: loadChatHistory_def d) (simp add: js_def trim_def isWhite_def)
  ultimately show ?thesis by simp
qed

section \<open>Properties of the chat timeline as it grows\<close>

lemma answeredBy_settled: "answeredBy False text msgs \<Longrightarrow> answeredBy inFlight text' msgs"
  by (induction False "text" msgs rule: answeredBy.induct) (auto split: if_splits)

lemma answeredBy_snoc_user:
  "answeredBy False text msgs \<Longrightarrow> msgType u = User \<Longrightarrow>
     answeredBy True (msgContent u) (msgs @ [u])"
  by (induction False "text" msgs rule: answeredBy.induct) (auto split: if_splits)

lemma answeredBy_snoc_agent:
  "answeredBy True text msgs \<Longrightarrow> msgType a = Agent \<Longrightarrow> msgContent a = text \<Longrightarrow>
     answeredBy False text' (msgs @ [a])"
  by (induction True "text" msgs rule: answeredBy.induct) (auto split: if_splits)

lemma answeredBy_snoc_error:
  "answeredBy inFlight text msgs \<Longrightarrow> msgType e = Error \<Longrightarrow> msgContent e = failedToSend \<Longrightarrow>
     answeredBy False text' (msgs @ [e])"
  by (induction inFlight "text" msgs rule: answeredBy.induct) (auto split: if_splits)

lemma answeredBy_map:
  assumes "\<And>m. msgType (f m) = msgType m" "\<And>m. msgContent (f m) = msgContent m"
  shows "answeredBy inFlight text (map f msgs) = answeredBy inFlight text msgs"
  by (induction inFlight "text" msgs rule: answeredBy.induct) (simp_all add: assms)

lemma historyShaped_answered: "historyShaped msgs \<Longrightarrow> answeredBy False text msgs"
proof (induction msgs rule: historyShaped.induct)
  case 1
  then show ?case by simp
next
  case (2 m)
  then show ?case by simp
next
  case (3 m n rest)
  then have "answeredBy False text rest" by simp
  then have "answeredBy False text (n # rest)"
    using 3 by (cases rest) simp_all
  then show ?case using 3 by simp
qed

lemma loadChatHistory_shaped:
  assumes "loadChatHistory rt cur res world = Some msgs"
  shows "historyShaped msgs"
proof -
  obtain xs where "historyLoop rt world 0 xs = Inr msgs"
    using assms
    by (auto simp: loadChatHistory_def
        split: fetchResult.splits option.splits if_splits sum.splits)
  then show ?thesis using historyLoop_pairs by blast
qed

lemma chatPollTick_answered:
  "answeredBy inFlight text (chatMessages (fst (chatPollTick st res agentStateRes)))
     = answeredBy inFlight text (chatMessages st)"
  "isSendingChat (fst (chatPollTick st res agentStateRes)) = isSendingChat st"
  "submittedText (fst (chatPollTick st res agentStateRes)) = submittedText st"
proof -
  have busy: "answeredBy inFlight text (map (markBusyTimeout c d) msgs)
      = answeredBy inFlight text msgs" for c d msgs
    by (rule answeredBy_map) (simp_all add: markBusyTimeout_def)
  have upd: "answeredBy inFlight text (map (updateWithResponse c d) msgs)
      = answeredBy inFlight text msgs" for c d msgs
    by (rule answeredBy_map) (simp_all add: updateWithResponse_def)
  show "answeredBy inFlight text (chatMessages (fst (chatPollTick st res agentStateRes)))
     = answeredBy inFlight text (chatMessages st)"
    by (simp add: chatPollTick_def Let_def stopChatPolling_def busy upd
        split: fetchResult.splits option.splits sum.splits)
  show "isSendingChat (fst (chatPollTick st res agentStateRes)) = isSendingChat st"
    by (simp add: chatPollTick_def Let_def stopChatPolling_def
        split: fetchResult.splits option.splits sum.splits)
  show "submittedText (fst (chatPollTick st res agentStateRes)) = submittedText st"
    by (simp add: chatPollTick_def Let_def stopChatPolling_def
        split: fetchResult.splits option.splits sum.splits)
qed

lemma submitStart_answered:
  assumes "answeredBy (isSendingChat st) (submittedText st) (chatMessages st)"
  shows "answeredBy (isSendingChat (submitStart agentNamed st chatInput stamp isoNow))
           (submittedText (submitStart agentNamed st chatInput stamp isoNow))
           (chatMessages (submitStart agentNamed st chatInput stamp isoNow))"
proof (cases "trim chatInput = [] \<or> isSendingChat st \<or> \<not> agentNamed")
  case True
  then show ?thesis using assms by (simp add: submitStart_def)
next
  case False
  define u where "u = \<lparr>msgId = JStr stamp, msgType = User, msgContent = trim chatInput,
      msgTimestamp = JStr isoNow, msgResponse = JUndefined, msgStatus = JUndefined,
      msgAgentState = JUndefined\<rparr>"
  have "answeredBy False (submittedText st) (chatMessages st)" using assms False by simp
  then have "answeredBy True (msgContent u) (chatMessages st @ [u])"
    by (rule answeredBy_snoc_user) (simp add: u_def)
  then show ?thesis using False by (simp add: submitStart_def u_def)
qed

lemma submitFinish_answered:
  assumes "answeredBy (isSendingChat st) (submittedText st) (chatMessages st)"
    "isSendingChat st" "submitFinish st res stamp isoNow = Some st'"
  shows "answeredBy (isSendingChat st') (submittedText st') (chatMessages st')"
proof -
  define e where "e = \<lparr>msgId = JStr stamp, msgType = Error, msgContent = failedToSend,
      msgTimestamp = JStr isoNow, msgResponse = JUndefined, msgStatus = JUndefined,
      msgAgentState = JUndefined\<rparr>"
  have failed: "answeredBy (isSendingChat (submitCatch st stamp isoNow))
      (submittedText (submitCatch st stamp isoNow)) (chatMessages (submitCatch st stamp isoNow))"
  proof -
    have "answeredBy False (submittedText st) (chatMessages st @ [e])"
      using assms(1) by (rule answeredBy_snoc_error) (simp_all add: e_def)
    then show ?thesis by (simp add: submitCatch_def e_def)
  qed
  show ?thesis
  proof (cases res)
    case NetworkError
    then show ?thesis using assms(3) failed by (auto simp: submitFinish_def)
  next
    case (HttpResponse ok body)
    show ?thesis
    proof (cases "ok \<and> body \<noteq> None")
      case False
      then have "st' = submitCatch st stamp isoNow"
        using assms(3) HttpResponse by (cases ok) (auto simp: submitFinish_def)
      then show ?thesis using failed by simp
    next
      case True
      then obtain json where json: "body = Some json" by auto
      define a where "a = \<lparr>msgId = getProp json (js ''id''), msgType = Agent,
          msgContent = submittedText st, msgTimestamp = JStr isoNow, msgResponse = json,
          msgStatus = getProp json (js ''status''), msgAgentState = JUndefined\<rparr>"
      have st': "chatMessages st' = chatMessages st @ [a]" "\<not> isSendingChat st'"
        "submittedText st' = submittedText st"
        using assms(3) True HttpResponse json
        by (auto simp: submitFinish_def a_def split: if_splits)
      have "answeredBy False (submittedText st) (chatMessages st @ [a])"
        using assms(1,2) by (intro answeredBy_snoc_agent) (simp_all add: a_def)
      then show ?thesis by (simp add: st')
    qed
  qed
qed

lemma reachable_answered:
  "reachable st \<Longrightarrow> answeredBy (isSendingChat st) (submittedText st) (chatMessages st)"
proof (induction rule: reachable.induct)
  case first_render
  then show ?case by (simp add: initialChat_def)
next
  case (history_loaded st rt cur res world msgs)
  have "historyShaped msgs" using history_loaded.hyps(2) by (rule loadChatHistory_shaped)
  then have "answeredBy False (submittedText st) msgs" by (rule historyShaped_answered)
  then have "answeredBy (isSendingChat st) (submittedText st) msgs"
    by (rule answeredBy_settled)
  then show ?case by simp
next
  case (submitted st agentNamed chatInput stamp isoNow)
  then show ?case by (simp add: submitStart_answered)
next
  case (answered st res stamp isoNow st')
  then show ?case using submitFinish_answered by blast
next
  case (ticked st res agentStateRes)
  then show ?case by (simp add: chatPollTick_answered)
qed

lemma submitFinish_accepted:
  assumes "body \<noteq> JNull" "body \<noteq> JUndefined"
  shows "\<exists>st' agent. submitFinish st (HttpResponse True (Some body)) stamp isoNow = Some st'
      \<and> chatMessages st' = chatMessages st @ [agent]
      \<and> msgType agent = Agent \<and> msgId agent = getProp body (js ''id'')
      \<and> msgResponse agent = body \<and> msgContent agent = submittedText st
      \<and> currentChatResponseId st' = getProp body (js ''id'')
      \<and> isChatPolling st' \<and> \<not> isSendingChat st'"
  using assms by (simp add: submitFinish_def)

lemma submitFinish_failed:
  assumes "isFailure res \<or> res = HttpResponse True None"
  shows "\<exists>st' error. submitFinish st res stamp isoNow = Some st'
      \<and> chatMessages st' = chatMessages st @ [error]
      \<and> msgType error = Error \<and> msgContent error = failedToSend
      \<and> currentChatResponseId st' = currentChatResponseId st \<and> \<not> isSendingChat st'"
  using assms by (cases res) (auto simp: submitFinish_def submitCatch_def)

lemma submitStart_sent:
  assumes "trim chatInput \<noteq> []" "\<not> isSendingChat st" "agentNamed"
  shows "\<exists>user. chatMessages (submitStart agentNamed st chatInput stamp isoNow)
        = chatMessages st @ [user]
      \<and> msgType user = User \<and> msgId user = JStr stamp \<and> msgContent user = trim chatInput
      \<and> isSendingChat (submitStart agentNamed st chatInput stamp isoNow)
      \<and> submittedText (submitStart agentNamed st chatInput stamp isoNow) = trim chatInput"
  using assms by (simp add: submitStart_def)

text \<open>
  Claim C9, as amended. In every chat timeline the page can reach, built from history or
  extended by live submissions, every user message is followed at once by an agent
  message with the same content or, when its submission failed, by the error message;
  the one exception is a user message in the last place while its submission is in
  flight. In a timeline built from history the two messages of a pair carry the same
  response id: the agent message has the id of its response and the response itself,
  the user message has the id \<^verbatim>\<open>user-\<close> followed by that id. In a live submission the
  user message carries a time stamp as its id; the answer to the submission appends
  the agent message with the id of the new response and the submitted text, and that id
  becomes the response to poll; a failed submission appends the error message. An answer
  whose body is the JSON value null leaves no timeline: the page is unmounted.
\<close>

theorem timeline_paired:
  "(reachable st \<longrightarrow> answeredBy (isSendingChat st) (submittedText st) (chatMessages st))
   \<and> (loadChatHistory rt cur fetched world = Some msgs \<longrightarrow> historyShaped msgs)
   \<and> (trim chatInput \<noteq> [] \<and> \<not> isSendingChat st \<and> agentNamed \<longrightarrow>
        (\<exists>user. chatMessages (submitStart agentNamed st chatInput stamp isoNow)
             = chatMessages st @ [user]
           \<and> msgType user = User \<and> msgId user = JStr stamp \<and> msgContent user = trim chatInput
           \<and> isSendingChat (submitStart agentNamed st chatInput stamp isoNow)
           \<and> submittedText (submitStart agentNamed st chatInput stamp isoNow) = trim chatInput))
   \<and> (body \<noteq> JNull \<and> body \<noteq> JUndefined \<longrightarrow>
        (\<exists>st' agent. submitFinish st (HttpResponse True (Some body)) stamp isoNow = Some st'
           \<and> chatMessages st' = chatMessages st @ [agent]
           \<and> msgType agent = Agent \<and> msgId agent = getProp body (js ''id'')
           \<and> msgResponse agent = body \<and> msgContent agent = submittedText st
           \<and> currentChatResponseId st' = getProp body (js ''id'')
           \<and> isChatPolling st' \<and> \<not> isSendingChat st'))
   \<and> (isFailure res \<or> res = HttpResponse True None \<longrightarrow>
        (\<exists>st' error. submitFinish st res stamp isoNow = Some st'
           \<and> chatMessages st' = chatMessages st @ [error]
           \<and> msgType error = Error \<and> msgContent error = failedToSend
           \<and> currentChatResponseId st' = currentChatResponseId st \<and> \<not> isSendingChat st'))
   \<and> submitFinish st (HttpResponse True (Some JNull)) stamp isoNow = None"
proof -
  have "submitFinish st (HttpResponse True (Some JNull)) stamp isoNow = None"
    by (simp add: submitFinish_def)
  then show ?thesis
    using reachable_answered [of st] loadChatHistory_shaped [of rt cur fetched world msgs]
      submitStart_sent [of chatInput st agentNamed stamp isoNow]
      submitFinish_accepted [of body st stamp isoNow]
      submitFinish_failed [of res st stamp isoNow]
    by blast
qed

lemma firstSent_state:
  "chatMessages firstSent =
     [\<lparr>msgId = JStr (js ''1793613600000''), msgType = User, msgContent = js ''hello'',
       msgTimestamp = JStr (js ''2026-11-02T10:00:00.000Z''), msgResponse = JUndefined,
       msgStatus = JUndefined, msgAgentState = JUndefined\<rparr>]"
  "isSendingChat firstSent" "submittedText firstSent = js ''hello''"
  by (simp_all add: firstSent_def submitStart_def initialChat_def trim_def isWhite_def js_def)

lemma reachable_firstSent: "reachable firstSent"
  unfolding firstSent_def by (rule reachable.submitted [OF reachable.first_render])

lemma firstAccepted_answer:
  "submitFinish firstSent (HttpResponse True (Some acceptedBody)) (js ''1793613601000'')
     (js ''2026-11-02T10:00:01.000Z'') = Some firstAccepted"
  by (simp add: submitFinish_def firstAccepted_def firstSent_state)
     (simp add: acceptedBody_def getProp_def js_def)

lemma reachable_firstAccepted: "reachable firstAccepted"
  by (rule reachable.answered [OF reachable_firstSent firstSent_state(2) firstAccepted_answer])

lemma firstAccepted_state:
  "chatIntervalActive firstAccepted" "\<not> chatCancelled firstAccepted"
  "\<not> isSendingChat firstAccepted" "currentChatResponseId firstAccepted = JStr (js ''r1'')"
  "map (\<lambda>m. (msgType m, msgId m, msgContent m)) (chatMessages firstAccepted)
     = [(User, JStr (js ''1793613600000''), js ''hello''), (Agent, JStr (js ''r1''), js ''hello'')]"
  by (simp_all add: firstAccepted_def firstSent_state)

lemma reachable_firstCompleted: "reachable firstCompleted"
  unfolding firstCompleted_def
  by (rule reachable.ticked [OF reachable_firstAccepted firstAccepted_state(1)])

lemma completed_terminal: "isTerminal (JStr (js ''completed'')) = Inr True"
  by (simp add: isTerminal_def TERMINAL_STATUSES_def toLowerCase_def lowerUnit_def js_def)

lemma firstCompleted_state:
  "\<not> isSendingChat firstCompleted" "\<not> chatIntervalActive firstCompleted"
  "map (\<lambda>m. (msgType m, msgId m, msgContent m, msgStatus m)) (chatMessages firstCompleted)
     = [(User, JStr (js ''1793613600000''), js ''hello'', JUndefined),
        (Agent, JStr (js ''r1''), js ''hello'', JStr (js ''completed''))]"
proof -
  have np: "\<not> isPendingOrProcessing (JStr (js ''completed''))"
    by (simp add: isPendingOrProcessing_def js_def)
  have tick: "firstCompleted = stopChatPolling (firstAccepted\<lparr>chatMessages :=
      map (updateWithResponse (JStr (js ''r1'')) (statusBody ''completed''))
        (chatMessages firstAccepted)\<rparr>)"
    using firstAccepted_state(2,4) np
    by (simp add: firstCompleted_def chatPollTick_def statusBody_normal statusBody_status
        completed_terminal Let_def) (simp add: statusBody_def)
  show "\<not> isSendingChat firstCompleted" "\<not> chatIntervalActive firstCompleted"
    using firstAccepted_state(3) by (simp_all add: tick stopChatPolling_def)
  show "map (\<lambda>m. (msgType m, msgId m, msgContent m, msgStatus m)) (chatMessages firstCompleted)
     = [(User, JStr (js ''1793613600000''), js ''hello'', JUndefined),
        (Agent, JStr (js ''r1''), js ''hello'', JStr (js ''completed''))]"
    by (simp add: tick stopChatPolling_def firstAccepted_def firstSent_state
        updateWithResponse_def statusBody_status)
       (simp add: js_def)
qed

lemma secondSent_state:
  "isSendingChat (submitStart True firstCompleted (js ''and then?'') (js ''1793613660000'')
          (js ''2026-11-02T10:01:00.000Z''))"
  using firstCompleted_state(1)
  by (simp add: submitStart_def) (simp add: trim_def isWhite_def js_def)

lemma reachable_secondFailed: "reachable secondFailed"
proof -
  have "submitFinish (submitStart True firstCompleted (js ''and then?'') (js ''1793613660000'')
          (js ''2026-11-02T10:01:00.000Z'')) NetworkError (js ''1793613660500'')
          (js ''2026-11-02T10:01:00.500Z'') = Some secondFailed"
    by (simp add: submitFinish_def secondFailed_def)
  then show ?thesis
    using reachable.answered [OF reachable.submitted [OF reachable_firstCompleted] secondSent_state]
    by blast
qed

lemma reachable_thirdSent: "reachable thirdSent"
  unfolding thirdSent_def by (rule reachable.submitted [OF reachable_secondFailed])

lemma thirdSent_state:
  "isSendingChat thirdSent" "submittedText thirdSent = js ''once more''"
  "map (\<lambda>m. (msgType m, msgContent m)) (chatMessages thirdSent)
     = [(User, js ''hello''), (Agent, js ''hello''), (User, js ''and then?''),
        (Error, failedToSend), (User, js ''once more'')]"
proof -
  have types: "map (\<lambda>m. (msgType m, msgContent m)) (chatMessages firstCompleted)
      = [(User, js ''hello''), (Agent, js ''hello'')]"
    using firstCompleted_state(3) [THEN arg_cong, of "map (\<lambda>(t, i, c, s). (t, c))"]
    by (simp add: o_def)
  have t2: "trim (js ''and then?'') = js ''and then?''" "js ''and then?'' \<noteq> []"
    "trim (js ''once more'') = js ''once more''" "js ''once more'' \<noteq> []"
    by (simp_all add: trim_def isWhite_def js_def)
  have sf: "\<not> isSendingChat secondFailed"
    "map (\<lambda>m. (msgType m, msgContent m)) (chatMessages secondFailed)
      = [(User, js ''hello''), (Agent, js ''hello''), (User, js ''and then?''),
         (Error, failedToSend)]"
    using firstCompleted_state(1) types
    by (simp_all add: secondFailed_def submitCatch_def submitStart_def t2)
  show "isSendingChat thirdSent" "submittedText thirdSent = js ''once more''"
    "map (\<lambda>m. (msgType m, msgContent m)) (chatMessages thirdSent)
     = [(User, js ''hello''), (Agent, js ''hello''), (User, js ''and then?''),
        (Error, failedToSend), (User, js ''once more'')]"
    using sf by (simp_all add: thirdSent_def submitStart_def t2)
qed

theorem timeline_paired_witness:
  "reachable thirdSent \<and> isSendingChat thirdSent
   \<and> map (\<lambda>m. (msgType m, msgContent m)) (chatMessages thirdSent)
     = [(User, js ''hello''), (Agent, js ''hello''), (User, js ''and then?''),
        (Error, failedToSend), (User, js ''once more'')]
   \<and> answeredBy (isSendingChat thirdSent) (submittedText thirdSent) (chatMessages thirdSent)
   \<and> submitFinish firstSent (HttpResponse True (Some acceptedBody)) (js ''1793613601000'')
        (js ''2026-11-02T10:00:01.000Z'') = Some firstAccepted
   \<and> map (\<lambda>m. (msgType m, msgId m, msgContent m)) (chatMessages firstAccepted)
     = [(User, JStr (js ''1793613600000''), js ''hello''), (Agent, JStr (js ''r1''), js ''hello'')]
   \<and> currentChatResponseId firstAccepted = JStr (js ''r1'')"
  using timeline_paired [where st = thirdSent and res = NetworkError and body = acceptedBody
      and chatInput = "js ''once more''" and agentNamed = True, THEN conjunct1]
    reachable_thirdSent thirdSent_state firstAccepted_answer firstAccepted_state
  by simp

lemma failedOnce_state:
  "map msgType (chatMessages failedOnce) = [User, Error]" "\<not> isSendingChat failedOnce"
  by (simp_all add: failedOnce_def submitCatch_def submitStart_def
      initialChat_def trim_def isWhite_def js_def)

lemma reachable_failedOnce: "reachable failedOnce"
proof -
  let ?sent = "submitStart True initialChat (js ''hello'') (js ''1793613600000'')
          (js ''2026-11-02T10:00:00.000Z'')"
  have "isSendingChat ?sent"
    by (simp add: submitStart_def initialChat_def trim_def isWhite_def js_def)
  moreover have "submitFinish ?sent NetworkError (js ''1793613600500'')
      (js ''2026-11-02T10:00:00.500Z'') = Some failedOnce"
    by (simp add: submitFinish_def failedOnce_def)
  ultimately show ?thesis
    using reachable.answered [OF reachable.submitted [OF reachable.first_render]] by blast
qed

lemma reachable_retrying: "reachable retrying"
  unfolding retrying_def by (rule reachable.submitted [OF reachable_failedOnce])

lemma retrying_state:
  "map msgType (chatMessages retrying) = [User, Error, User]" "isSendingChat retrying"
  using failedOnce_state
  by (simp_all add: retrying_def submitStart_def trim_def isWhite_def js_def)

lemma reachable_failedTwice: "reachable failedTwice"
proof -
  have "submitFinish retrying (HttpResponse False None) (js ''1793613601500'')
      (js ''2026-11-02T10:00:01.500Z'') = Some failedTwice"
    by (simp add: submitFinish_def failedTwice_def)
  then show ?thesis
    using reachable.answered [OF reachable_retrying retrying_state(2)] by blast
qed

lemma failedTwice_state:
  "map msgType (chatMessages failedTwice) = [User, Error, User, Error]"
  using retrying_state by (simp add: failedTwice_def submitCatch_def)

text \<open>
  The claim as first stated allows one user message without an agent message, the most
  recent one. After two submissions that both failed the timeline is user, error, user,
  error: the first user message is not the most recent one and there is no agent message
  at all.
\<close>

theorem timeline_paired_counterexample:
  "reachable failedTwice
   \<and> map msgType (chatMessages failedTwice) = [User, Error, User, Error]
   \<and> \<not> claim_paired (map msgType (chatMessages failedTwice))"
  using reachable_failedTwice by (simp add: failedTwice_state)

end
